theory Spec2Isabelle
  imports Main "HOL-Library.AList"
begin

section \<open>Python string primitives used by the analyzer\<close>

text \<open>
  A Python \<open>str\<close> is modelled as a \<open>string\<close>; each \<open>char\<close> stands for one code
  point below 256.  \<open>whitespace\<close> lists the code points below 256 for which
  \<open>str.isspace\<close> holds; they are what \<open>str.strip()\<close> and \<open>str.split()\<close> remove.
\<close>

definition whitespace :: "char list" where
  "whitespace = [CHR 0x09, CHR 0x0A, CHR 0x0B, CHR 0x0C, CHR 0x0D, CHR 0x1C, CHR 0x1D,
                 CHR 0x1E, CHR 0x1F, CHR 0x20, CHR 0x85, CHR 0xA0]"

definition is_space :: "char \<Rightarrow> bool" where
  "is_space c = (c \<in> set whitespace)"

abbreviation NL :: char where "NL \<equiv> CHR 0x0A"
abbreviation TAB :: char where "TAB \<equiv> CHR 0x09"
abbreviation DQ :: char where "DQ \<equiv> CHR 0x22"

text \<open>\<open>s.strip()\<close>\<close>

definition strip :: "string \<Rightarrow> string" where
  "strip s = rev (dropWhile is_space (rev (dropWhile is_space s)))"

text \<open>\<open>s.split(sep)\<close> for a one-character separator: never the empty list.\<close>

fun split_on :: "char \<Rightarrow> string \<Rightarrow> string list" where
  "split_on sep [] = [[]]"
| "split_on sep (c # cs) =
     (if c = sep then [] # split_on sep cs
      else (case split_on sep cs of [] \<Rightarrow> [[c]] | p # ps \<Rightarrow> (c # p) # ps))"

text \<open>\<open>s.split(sep, 1)\<close>: at most one split, at the first separator.\<close>

definition split_max1 :: "char \<Rightarrow> string \<Rightarrow> string list" where
  "split_max1 sep s =
     (if sep \<in> set s then [takeWhile (\<lambda>c. c \<noteq> sep) s, tl (dropWhile (\<lambda>c. c \<noteq> sep) s)]
      else [s])"

text \<open>\<open>s.split()\<close>: the maximal runs of non-whitespace characters.\<close>

fun split_ws :: "string \<Rightarrow> string list" where
  "split_ws [] = []"
| "split_ws (c # cs) =
     (if is_space c then split_ws cs
      else if cs = [] \<or> is_space (hd cs) then [c] # split_ws cs
      else (case split_ws cs of [] \<Rightarrow> [[c]] | t # ts \<Rightarrow> (c # t) # ts))"

text \<open>\<open>sep.join(parts)\<close>\<close>

fun join :: "string \<Rightarrow> string list \<Rightarrow> string" where
  "join sep [] = []"
| "join sep [p] = p"
| "join sep (p # q # ps) = p @ sep @ join sep (q # ps)"

text \<open>\<open>s.startswith(p)\<close> and \<open>p in s\<close>\<close>

definition startswith :: "string \<Rightarrow> string \<Rightarrow> bool" where
  "startswith p s = (take (length p) s = p)"

fun is_in :: "string \<Rightarrow> string \<Rightarrow> bool" where
  "is_in p [] = (p = [])"
| "is_in p (c # cs) = (startswith p (c # cs) \<or> is_in p cs)"

section \<open>Exceptions and dictionaries\<close>

text \<open>
  The exceptions of class \<open>Exception\<close> that the analyzer can meet: the time-out of
  \<open>subprocess.run\<close>, which \<open>get_java_processes\<close> handles apart, and every other one,
  with its class name.
\<close>

datatype exc = TimeoutExpired | OtherException string

text \<open>
  A \<open>Dict[str, str]\<close> is an association list in insertion order; \<open>d[k] = v\<close> is
  \<open>AList.update k v d\<close>, which overwrites in place or appends.  A dictionary is
  truthy when it is not empty.
\<close>

type_synonym dict = "(string \<times> string) list"

text \<open>\<open>xs[i]\<close> for \<open>i \<ge> 0\<close>, and the unpacking \<open>a, b = xs\<close>.\<close>

definition index :: "'a list \<Rightarrow> nat \<Rightarrow> exc + 'a" where
  "index xs i = (if i < length xs then Inr (xs ! i) else Inl (OtherException ''IndexError''))"

definition unpack2 :: "'a list \<Rightarrow> exc + ('a \<times> 'a)" where
  "unpack2 xs = (case xs of [a, b] \<Rightarrow> Inr (a, b) | _ \<Rightarrow> Inl (OtherException ''ValueError''))"

section \<open>External tools\<close>

text \<open>
  \<open>subprocess.run(argv, ..., timeout=30)\<close> either completes with an exit code and the
  text of standard output, or raises.  What the tools answer is a parameter of the model.
\<close>

datatype run_outcome = Completed int string | Raises exc

type_synonym tools = "string list \<Rightarrow> run_outcome"

definition subprocess_run :: "tools \<Rightarrow> string list \<Rightarrow> exc + (int \<times> string)" where
  "subprocess_run tools argv =
     (case tools argv of Completed returncode stdout \<Rightarrow> Inr (returncode, stdout)
      | Raises e \<Rightarrow> Inl e)"

text \<open>A failed invocation: it raised (the time-out included) or exited with a non-zero code.\<close>

fun failed :: "run_outcome \<Rightarrow> bool" where
  "failed (Raises e) = True"
| "failed (Completed returncode stdout) = (returncode \<noteq> 0)"

section \<open>\<open>get_java_processes\<close>\<close>

text \<open>The body of the loop over the lines of \<open>jps -v\<close>.\<close>

definition jps_line :: "dict \<Rightarrow> string \<Rightarrow> dict" where
  "jps_line processes line =
     (if line \<noteq> [] then
        (let parts = split_ws line in
         if length parts > 1 then AList.update (parts ! 0) (join '' '' (drop 1 parts)) processes
         else processes)
      else processes)"

text \<open>The \<open>try\<close> block, then the function with its two handlers.\<close>

definition get_java_processes_try :: "tools \<Rightarrow> exc + dict" where
  "get_java_processes_try tools =
     (case subprocess_run tools [''jps'', ''-v''] of
        Inl e \<Rightarrow> Inl e
      | Inr (returncode, stdout) \<Rightarrow>
          Inr (if returncode = 0 then foldl jps_line [] (split_on NL (strip stdout)) else []))"

definition get_java_processes :: "tools \<Rightarrow> exc + dict" where
  "get_java_processes tools =
     (case get_java_processes_try tools of
        Inr processes \<Rightarrow> Inr processes
      | Inl TimeoutExpired \<Rightarrow> Inr []
      | Inl (OtherException e) \<Rightarrow> Inr [])"

section \<open>\<open>analyze_web_components\<close> and \<open>_parse_classloader_output\<close>\<close>

text \<open>One round of the loop: the state is \<open>(loaders, current_loader)\<close>.\<close>

definition classloader_step :: "dict list \<times> dict \<Rightarrow> string \<Rightarrow> dict list \<times> dict" where
  "classloader_step st line =
     (case st of (loaders, current_loader) \<Rightarrow>
        if strip line \<noteq> [] then
          if startswith ''ClassLoader'' line then
            (if current_loader \<noteq> [] then loaders @ [current_loader] else loaders,
             [(''type'', strip line)])
          else if current_loader \<noteq> [] then
            (let parts = split_on CHR '':'' (strip line) in
             if length parts = 2
             then (loaders, AList.update (strip (parts ! 0)) (strip (parts ! 1)) current_loader)
             else (loaders, current_loader))
          else (loaders, current_loader)
        else (loaders, current_loader))"

definition parse_classloader_lines :: "string list \<Rightarrow> dict list" where
  "parse_classloader_lines lines =
     (case foldl classloader_step ([], []) lines of
        (loaders, current_loader) \<Rightarrow>
          if current_loader \<noteq> [] then loaders @ [current_loader] else loaders)"

definition parse_classloader_output :: "string \<Rightarrow> dict list" where
  "parse_classloader_output output = parse_classloader_lines (split_on NL output)"

definition analyze_web_components :: "tools \<Rightarrow> string \<Rightarrow> exc + dict list" where
  "analyze_web_components tools pid =
     (case subprocess_run tools (split_ws (''jcmd '' @ pid @ '' VM.classloaders'')) of
        Inl e \<Rightarrow> Inr []
      | Inr (returncode, stdout) \<Rightarrow>
          if returncode = 0 then Inr ([] @ parse_classloader_output stdout) else Inr [])"

section \<open>\<open>analyze_threads\<close> and \<open>_parse_thread_dump\<close>\<close>

text \<open>
  A thread dictionary always has the keys \<open>name\<close>, \<open>state\<close> and \<open>stack\<close>;
  \<open>current_thread\<close> is \<open>None\<close> while it is the empty (falsy) dictionary.
\<close>

record thread =
  name :: string
  state :: "string option"
  stack :: "string list"

definition flush :: "thread list \<Rightarrow> thread option \<Rightarrow> thread list" where
  "flush threads current_thread =
     (case current_thread of None \<Rightarrow> threads | Some t \<Rightarrow> threads @ [t])"

definition thread_step ::
  "thread list \<times> thread option \<Rightarrow> string \<Rightarrow> exc + (thread list \<times> thread option)" where
  "thread_step st line =
     (case st of (threads, current_thread) \<Rightarrow>
        if startswith [DQ] line then
          (case index (split_on DQ line) 1 of
             Inl e \<Rightarrow> Inl e
           | Inr nm \<Rightarrow>
               Inr (flush threads current_thread, Some \<lparr>name = nm, state = None, stack = []\<rparr>))
        else if is_in ''java.lang.Thread.State:'' line \<and> current_thread \<noteq> None then
          (case index (split_on CHR '':'' line) 1 of
             Inl e \<Rightarrow> Inl e
           | Inr s \<Rightarrow>
               Inr (threads, map_option (\<lambda>t. t\<lparr>state := Some (strip s)\<rparr>) current_thread))
        else if startswith ''at '' (strip line) \<and> current_thread \<noteq> None then
          Inr (threads, map_option (\<lambda>t. t\<lparr>stack := stack t @ [strip line]\<rparr>) current_thread)
        else Inr (threads, current_thread))"

fun thread_loop ::
  "thread list \<times> thread option \<Rightarrow> string list \<Rightarrow> exc + (thread list \<times> thread option)" where
  "thread_loop st [] = Inr st"
| "thread_loop st (line # rest) =
     (case thread_step st line of Inl e \<Rightarrow> Inl e | Inr st' \<Rightarrow> thread_loop st' rest)"

definition parse_thread_lines :: "string list \<Rightarrow> exc + thread list" where
  "parse_thread_lines lines =
     (case thread_loop ([], None) lines of
        Inl e \<Rightarrow> Inl e
      | Inr (threads, current_thread) \<Rightarrow> Inr (flush threads current_thread))"

definition parse_thread_dump :: "string \<Rightarrow> exc + thread list" where
  "parse_thread_dump output = parse_thread_lines (split_on NL output)"

definition analyze_threads :: "tools \<Rightarrow> string \<Rightarrow> exc + thread list" where
  "analyze_threads tools pid =
     (case subprocess_run tools (split_ws (''jstack '' @ pid)) of
        Inl e \<Rightarrow> Inr []
      | Inr (returncode, stdout) \<Rightarrow>
          if returncode = 0 then
            (case parse_thread_dump stdout of Inl e \<Rightarrow> Inr [] | Inr threads \<Rightarrow> Inr threads)
          else Inr [])"

section \<open>\<open>analyze_system_properties\<close>\<close>

text \<open>
  The loop over the lines; \<open>properties\<close> is updated in place, so the handler of an
  exception raised inside the loop returns what was inserted before it.
\<close>

fun properties_loop :: "dict \<Rightarrow> string list \<Rightarrow> dict \<times> exc option" where
  "properties_loop properties [] = (properties, None)"
| "properties_loop properties (line # rest) =
     (if CHR ''='' \<in> set line then
        (case unpack2 (split_max1 CHR ''='' line) of
           Inl e \<Rightarrow> (properties, Some e)
         | Inr (key, val) \<Rightarrow> properties_loop (AList.update (strip key) (strip val) properties) rest)
      else properties_loop properties rest)"

definition analyze_system_properties :: "tools \<Rightarrow> string \<Rightarrow> exc + dict" where
  "analyze_system_properties tools pid =
     (case subprocess_run tools (split_ws (''jcmd '' @ pid @ '' VM.system_properties'')) of
        Inl e \<Rightarrow> Inr []
      | Inr (returncode, stdout) \<Rightarrow>
          if returncode = 0 then Inr (fst (properties_loop [] (split_on NL stdout))) else Inr [])"

section \<open>\<open>_analyze_single_jsp\<close>: counting scriptlets\<close>

text \<open>
  \<open>re.findall(r'<%.*?%>', content, re.DOTALL)\<close>.  With \<open>re.DOTALL\<close> the dot matches every
  character, so a match that starts at an opening \<open><%\<close> ends at the first \<open>%>\<close> that begins
  two characters later or more.  \<open>find_close\<close> looks for that first \<open>%>\<close> and returns the
  text up to its end and the text after it.  \<open>findall_scriptlets\<close> scans for the leftmost
  position where a match exists, takes it, and goes on after its end.
\<close>

fun find_close :: "string \<Rightarrow> (string \<times> string) option" where
  "find_close (a # b # cs) =
     (if a = CHR ''%'' \<and> b = CHR ''>'' then Some (''%>'', cs)
      else (case find_close (b # cs) of None \<Rightarrow> None | Some (m, rest) \<Rightarrow> Some (a # m, rest)))"
| "find_close [a] = None"
| "find_close [] = None"

lemma find_close_shorter: "find_close s = Some (m, rest) \<Longrightarrow> length rest < length s"
  by (induction s arbitrary: m rest rule: find_close.induct)
     (auto split: if_splits option.splits)

function findall_scriptlets :: "string \<Rightarrow> string list" where
  "findall_scriptlets (a # b # cs) =
     (if a = CHR ''<'' \<and> b = CHR ''%'' then
        (case find_close cs of
           None \<Rightarrow> findall_scriptlets (b # cs)
         | Some (m, rest) \<Rightarrow> (''<%'' @ m) # findall_scriptlets rest)
      else findall_scriptlets (b # cs))"
| "findall_scriptlets [a] = []"
| "findall_scriptlets [] = []"
  by pat_completeness auto
termination
  by (relation "measure length") (auto dest: find_close_shorter)

text \<open>
  What the file system answers for a path: the decoded content, \<open>os.path.getsize\<close> and the
  ISO form of \<open>os.path.getmtime\<close>, or an exception.
\<close>

record jsp_stat =
  content :: string
  getsize :: nat
  getmtime_iso :: string

record jsp_result =
  path :: string
  size_bytes :: nat
  last_modified :: string
  scriptlets :: nat

definition analyze_single_jsp :: "(string \<Rightarrow> exc + jsp_stat) \<Rightarrow> string \<Rightarrow> jsp_result option" where
  "analyze_single_jsp files file_path =
     (case files file_path of
        Inl e \<Rightarrow> None
      | Inr f \<Rightarrow>
          Some \<lparr>path = file_path, size_bytes = getsize f, last_modified = getmtime_iso f,
                scriptlets = length (findall_scriptlets (content f))\<rparr>)"

section \<open>\<open>generate_report\<close>\<close>

text \<open>The report is a value of nested dictionaries, lists, strings and \<open>None\<close>.\<close>

datatype json = JNull | JStr string | JList "json list" | JDict "(string \<times> json) list"

definition json_of_dict :: "dict \<Rightarrow> json" where
  "json_of_dict d = JDict (map (\<lambda>(k, v). (k, JStr v)) d)"

definition json_of_thread :: "thread \<Rightarrow> json" where
  "json_of_thread t =
     JDict [(''name'', JStr (name t)),
            (''state'', (case state t of None \<Rightarrow> JNull | Some s \<Rightarrow> JStr s)),
            (''stack'', JList (map JStr (stack t)))]"

text \<open>
  The world of one run: the tools, the clock (\<open>datetime.now().isoformat()\<close>) and what
  writing the report to a path does (\<open>None\<close> when \<open>open\<close> and \<open>json.dump\<close> succeed).
\<close>

record world =
  run :: tools
  clock :: string
  dump :: "string \<Rightarrow> exc option"

definition process_info :: "tools \<Rightarrow> string \<Rightarrow> string \<Rightarrow> exc + json" where
  "process_info tools pid command =
     (case analyze_web_components tools pid of
        Inl e \<Rightarrow> Inl e
      | Inr web_components \<Rightarrow>
     (case analyze_threads tools pid of
        Inl e \<Rightarrow> Inl e
      | Inr threads \<Rightarrow>
     (case analyze_system_properties tools pid of
        Inl e \<Rightarrow> Inl e
      | Inr system_properties \<Rightarrow>
          Inr (JDict [(''command'', JStr command),
                      (''web_components'', JList (map json_of_dict web_components)),
                      (''threads'', JList (map json_of_thread threads)),
                      (''system_properties'', json_of_dict system_properties)]))))"

text \<open>The loop \<open>for pid, command in java_processes.items()\<close>.\<close>

fun report_loop :: "tools \<Rightarrow> (string \<times> json) list \<Rightarrow> dict \<Rightarrow> exc + (string \<times> json) list" where
  "report_loop tools processes [] = Inr processes"
| "report_loop tools processes ((pid, command) # rest) =
     (case process_info tools pid command of
        Inl e \<Rightarrow> Inl e
      | Inr info \<Rightarrow> report_loop tools (AList.update pid info processes) rest)"

definition generate_report :: "world \<Rightarrow> string option \<Rightarrow> exc + json" where
  "generate_report w output_file =
     (case get_java_processes (run w) of
        Inl e \<Rightarrow> Inl e
      | Inr java_processes \<Rightarrow>
     (case report_loop (run w) [] java_processes of
        Inl e \<Rightarrow> Inl e
      | Inr processes \<Rightarrow>
          (let report = JDict [(''timestamp'', JStr (clock w)),
                               (''processes'', JDict processes),
                               (''warnings'', JList [])]
           in if output_file \<noteq> None \<and> output_file \<noteq> Some [] then
                (case dump w (the output_file) of Some e \<Rightarrow> Inl e | None \<Rightarrow> Inr report)
              else Inr report)))"

section \<open>Reference functions for the statements\<close>

text \<open>
  The definitions of this section are not translations of source functions.  They say, in
  the words of the specification, what a parser is expected to compute, so that a theorem
  can compare them with the translation of the code; or they name the observations that a
  statement makes of a result.
\<close>

subsection \<open>Process listing\<close>

text \<open>
  The non-empty lines of the listing, and the entry expected for a line: its first
  whitespace-delimited token, and the remaining tokens joined by single spaces.
\<close>

definition nonempty_lines :: "string \<Rightarrow> string list" where
  "nonempty_lines stdout = filter (\<lambda>line. line \<noteq> []) (split_on NL stdout)"

definition jps_entry :: "string \<Rightarrow> string \<times> string" where
  "jps_entry line = (hd (split_ws line), join '' '' (tl (split_ws line)))"

text \<open>Used in proofs only: the token lists of the lines that have a token, and the entry of a token list.\<close>

definition token_lines :: "string list \<Rightarrow> string list list" where
  "token_lines lines = filter (\<lambda>t. t \<noteq> []) (map split_ws lines)"

definition entry_of_tokens :: "string list \<Rightarrow> string \<times> string" where
  "entry_of_tokens parts = (parts ! 0, join '' '' (drop 1 parts))"

subsection \<open>Classloader output\<close>

text \<open>
  A marker line begins with \<open>ClassLoader\<close>.  A block is a marker line with the lines that
  follow it up to the next marker line.  \<open>add_field\<close> is the field rule as amended: a line
  whose trimmed form has exactly one colon gives the key before the colon and the value
  after it, both trimmed.  \<open>loader_record\<close> is the record expected for a block.
\<close>

definition is_marker :: "string \<Rightarrow> bool" where
  "is_marker line = startswith ''ClassLoader'' line"

definition add_field :: "dict \<Rightarrow> string \<Rightarrow> dict" where
  "add_field loader line =
     (let t = strip line in
      if count_list t CHR '':'' = 1
      then AList.update (strip (takeWhile (\<lambda>c. c \<noteq> CHR '':'') t))
             (strip (tl (dropWhile (\<lambda>c. c \<noteq> CHR '':'') t))) loader
      else loader)"

definition loader_record :: "string \<times> string list \<Rightarrow> dict" where
  "loader_record block = foldl add_field [(''type'', strip (fst block))] (snd block)"

definition block_lines :: "string \<times> string list \<Rightarrow> string list" where
  "block_lines block = fst block # snd block"

text \<open>
  The field rule as the claim words it: the line is split at its first colon, however many
  colons it has.
\<close>

definition add_field_first_colon :: "dict \<Rightarrow> string \<Rightarrow> dict" where
  "add_field_first_colon loader line =
     (let t = strip line in
      if CHR '':'' \<in> set t
      then AList.update (strip (takeWhile (\<lambda>c. c \<noteq> CHR '':'') t))
             (strip (tl (dropWhile (\<lambda>c. c \<noteq> CHR '':'') t))) loader
      else loader)"

definition loader_record_first_colon :: "string \<times> string list \<Rightarrow> dict" where
  "loader_record_first_colon block =
     foldl add_field_first_colon [(''type'', strip (fst block))] (snd block)"

text \<open>A record that a marker line started has \<open>type\<close> as its first key.\<close>

definition starts_with_type :: "dict \<Rightarrow> bool" where
  "starts_with_type loader = (loader \<noteq> [] \<and> fst (hd loader) = ''type'')"

text \<open>Used in proofs only: the flush at the end of the loop, and a decomposition into blocks.\<close>

definition flush_loader :: "dict list \<times> dict \<Rightarrow> dict list" where
  "flush_loader st = (if snd st \<noteq> [] then fst st @ [snd st] else fst st)"

definition well_blocked :: "string list \<Rightarrow> (string \<times> string list) list \<Rightarrow> bool" where
  "well_blocked pre blocks \<longleftrightarrow>
     (\<forall>l \<in> set pre. \<not> is_marker l) \<and>
     (\<forall>b \<in> set blocks. is_marker (fst b) \<and> (\<forall>l \<in> set (snd b). \<not> is_marker l))"

subsection \<open>Thread dump\<close>

text \<open>
  A header line starts with a quote character; its name is the text after that quote up to
  the next quote, or to the end of the line when there is none.
\<close>

definition is_header :: "string \<Rightarrow> bool" where
  "is_header line = startswith [DQ] line"

definition quoted_name :: "string \<Rightarrow> string" where
  "quoted_name line = takeWhile (\<lambda>c. c \<noteq> DQ) (tl line)"

text \<open>
  Used in proofs only: one round of the loop of \<open>_parse_thread_dump\<close> without the
  exceptions.  \<open>thread_step_eq\<close> below shows that \<open>thread_step\<close> always returns it.
\<close>

definition thread_step_result :: "thread list \<times> thread option \<Rightarrow> string \<Rightarrow> thread list \<times> thread option" where
  "thread_step_result st line =
     (if is_header line then
        (flush (fst st) (snd st), Some \<lparr>name = quoted_name line, state = None, stack = []\<rparr>)
      else if is_in ''java.lang.Thread.State:'' line \<and> snd st \<noteq> None then
        (fst st, map_option (\<lambda>t. t\<lparr>state := Some (strip (split_on CHR '':'' line ! 1))\<rparr>) (snd st))
      else if startswith ''at '' (strip line) \<and> snd st \<noteq> None then
        (fst st, map_option (\<lambda>t. t\<lparr>stack := stack t @ [strip line]\<rparr>) (snd st))
      else st)"

subsection \<open>System properties\<close>

text \<open>
  The property of a line: the text before the first \<open>=\<close> and the text after it, both
  trimmed; and the properties of the lines that contain \<open>=\<close>, in order.
\<close>

definition property_of_line :: "string \<Rightarrow> string \<times> string" where
  "property_of_line line =
     (strip (takeWhile (\<lambda>c. c \<noteq> CHR ''='') line), strip (tl (dropWhile (\<lambda>c. c \<noteq> CHR ''='') line)))"

definition property_lines :: "string list \<Rightarrow> (string \<times> string) list" where
  "property_lines lines = map property_of_line (filter (\<lambda>line. CHR ''='' \<in> set line) lines)"

subsection \<open>Report\<close>

text \<open>The keys of a dictionary value, in order, and the value under a key.\<close>

definition json_keys :: "json \<Rightarrow> string list option" where
  "json_keys j = (case j of JDict kvs \<Rightarrow> Some (map fst kvs) | _ \<Rightarrow> None)"

definition json_get :: "json \<Rightarrow> string \<Rightarrow> json option" where
  "json_get j k = (case j of JDict kvs \<Rightarrow> map_of kvs k | _ \<Rightarrow> None)"

text \<open>
  Used in proofs only: the values that \<open>get_java_processes\<close> and \<open>process_info\<close> return
  (they never raise), and the report assembled from them.
\<close>

definition processes_of :: "tools \<Rightarrow> dict" where
  "processes_of tools = (case get_java_processes tools of Inr processes \<Rightarrow> processes | Inl e \<Rightarrow> [])"

definition info_of :: "tools \<Rightarrow> string \<Rightarrow> string \<Rightarrow> json" where
  "info_of tools pid command = (case process_info tools pid command of Inr info \<Rightarrow> info | Inl e \<Rightarrow> JNull)"

definition report_of :: "world \<Rightarrow> json" where
  "report_of w =
     JDict [(''timestamp'', JStr (clock w)),
            (''processes'', JDict (map (\<lambda>p. (fst p, info_of (run w) (fst p) (snd p))) (processes_of (run w)))),
            (''warnings'', JList [])]"

section \<open>Example inputs\<close>

text \<open>Tools that fail in each of the three ways, for process 42.\<close>

definition broken_tools :: tools where
  "broken_tools argv =
     (if argv = [''jps'', ''-v''] then Raises TimeoutExpired
      else if argv = [''jcmd'', ''42'', ''VM.classloaders''] then Raises (OtherException ''FileNotFoundError'')
      else if argv = [''jstack'', ''42''] then Completed 1 ''42: No such process''
      else Raises TimeoutExpired)"

text \<open>Process listings: two processes, and the same process id on two lines.\<close>

definition example_listing :: string where
  "example_listing = ''4711 Bootstrap start -Xmx1g'' @ [NL] @ ''4802 Jps  -v'' @ [NL]"

definition example_listing_tools :: tools where
  "example_listing_tools argv = Completed 0 example_listing"

definition duplicate_pid_listing :: string where
  "duplicate_pid_listing = ''1 a'' @ [NL] @ ''1 b''"

definition duplicate_pid_tools :: tools where
  "duplicate_pid_tools argv = Completed 0 duplicate_pid_listing"

text \<open>
  Classloader outputs: a field line before the first marker and two blocks; a field whose
  value has a colon; two field lines before the only marker.
\<close>

definition example_classloaders :: string where
  "example_classloaders =
     ''name: boot'' @ [NL] @ ''ClassLoader app'' @ [NL] @ ''  url: file:/x.jar'' @ [NL] @
     '' parent : ext '' @ [NL] @ ''ClassLoader ext''"

definition url_classloaders :: string where
  "url_classloaders = ''ClassLoader app'' @ [NL] @ ''url: file:/x.jar''"

definition orphan_classloaders :: string where
  "orphan_classloaders =
     ''parent: none'' @ [NL] @ ''  url: x'' @ [NL] @ ''ClassLoader app'' @ [NL] @ ''type: web''"

text \<open>
  Thread dumps: the example of the specification; a state line and a frame line before a
  header that has no closing quote; and the example with a first frame line that contains
  the thread-state marker.
\<close>

definition example_dump :: string where
  "example_dump =
     DQ # ''main'' @ DQ # '' #1 prio=5 os_prio=0'' @ [NL] @
     ''   java.lang.Thread.State: RUNNABLE'' @ [NL, TAB] @
     ''at a.b.c(A.java:1)'' @ [NL, TAB] @
     ''at d.e.f(B.java:2)'' @ [NL, DQ] @
     ''main2'' @ DQ # '' #2 daemon''"

definition orphan_dump :: string where
  "orphan_dump =
     ''   java.lang.Thread.State: BLOCKED'' @ [NL, TAB] @ ''at x.y(Z.java:3)'' @ [NL, DQ] @ ''worker''"

definition marker_frame_dump :: string where
  "marker_frame_dump =
     DQ # ''main'' @ DQ # '' #1 prio=5 os_prio=0'' @ [NL] @
     ''   java.lang.Thread.State: RUNNABLE'' @ [NL, TAB] @
     ''at a.b.c(A.java:1) // java.lang.Thread.State: BLOCKED'' @ [NL, TAB] @
     ''at d.e.f(B.java:2)'' @ [NL, DQ] @
     ''main2'' @ DQ # '' #2 daemon''"

text \<open>The output of the properties command in the example of the specification.\<close>

definition example_properties :: string where
  "example_properties = ''a.b=1'' @ [NL] @ ''c=x=y''"

definition properties_tools :: tools where
  "properties_tools argv = Completed 0 example_properties"

text \<open>
  JSP contents: the example of the specification, and a scriptlet that spans a newline
  followed by an opening that is never closed; a file system with the first one.
\<close>

definition example_jsp :: string where
  "example_jsp = ''<% int x=1; %>text<% y++; %>''"

definition unterminated_jsp :: string where
  "unterminated_jsp = ''<% a'' @ [NL] @ '' %>b<% c''"

definition example_files :: "string \<Rightarrow> exc + jsp_stat" where
  "example_files file_path =
     (if file_path = ''webapps/index.jsp''
      then Inr \<lparr>content = example_jsp, getsize = 29, getmtime_iso = ''2024-01-01T00:00:00''\<rparr>
      else Inl (OtherException ''FileNotFoundError''))"

text \<open>
  Worlds with one Java process, whose classloader command times out and whose thread dump
  exits with code 1: one where the report can be written, one where writing it raises; and
  the report of both.
\<close>

definition example_run :: tools where
  "example_run argv =
     (if argv = [''jps'', ''-v''] then Completed 0 (''4711 Bootstrap start'' @ [NL])
      else if argv = [''jcmd'', ''4711'', ''VM.classloaders''] then Raises TimeoutExpired
      else if argv = [''jstack'', ''4711''] then Completed 1 ''4711: no such process''
      else if argv = [''jcmd'', ''4711'', ''VM.system_properties''] then Completed 0 ''a.b=1''
      else Raises (OtherException ''FileNotFoundError''))"

definition example_world :: world where
  "example_world = \<lparr>run = example_run, clock = ''2024-01-01T00:00:00'', dump = (\<lambda>f. None)\<rparr>"

definition readonly_world :: world where
  "readonly_world =
     \<lparr>run = example_run, clock = ''2024-01-01T00:00:00'',
      dump = (\<lambda>f. Some (OtherException ''PermissionError''))\<rparr>"

definition example_report :: json where
  "example_report =
     JDict [(''timestamp'', JStr ''2024-01-01T00:00:00''),
            (''processes'',
             JDict [(''4711'',
                     JDict [(''command'', JStr ''Bootstrap start''),
                            (''web_components'', JList []),
                            (''threads'', JList []),
                            (''system_properties'', JDict [(''a.b'', JStr ''1'')])])]),
            (''warnings'', JList [])]"

section \<open>Facts about the string primitives\<close>

lemma split_on_not_Nil: "split_on sep s \<noteq> []"
  by (induction s) (auto split: list.splits)

lemma length_split_on: "length (split_on sep s) = Suc (count_list s sep)"
  by (induction s) (auto split: list.splits)

lemma split_on_notin: "sep \<notin> set s \<Longrightarrow> split_on sep s = [s]"
  by (induction s) auto

lemma split_on_append_sep:
  "sep \<notin> set a \<Longrightarrow> split_on sep (a @ sep # b) = a # split_on sep b"
  by (induction a) auto

lemma hd_split_on: "hd (split_on sep s) = takeWhile (\<lambda>c. c \<noteq> sep) s"
  by (induction s) (auto simp: split_on_not_Nil split: list.splits)

lemma tl_split_on:
  "sep \<in> set s \<Longrightarrow> tl (split_on sep s) = split_on sep (tl (dropWhile (\<lambda>c. c \<noteq> sep) s))"
  by (induction s) (auto split: list.splits)

lemma split_on_two:
  assumes "length (split_on sep s) = 2"
  shows "split_on sep s = [takeWhile (\<lambda>c. c \<noteq> sep) s, tl (dropWhile (\<lambda>c. c \<noteq> sep) s)]"
proof -
  from assms have c1: "count_list s sep = 1"
    by (simp add: length_split_on)
  then have mem: "sep \<in> set s"
    by (metis count_list_0_iff zero_neq_one)
  have "count_list s sep =
          count_list (takeWhile (\<lambda>c. c \<noteq> sep) s) sep + count_list (dropWhile (\<lambda>c. c \<noteq> sep) s) sep"
    by (metis count_list_append takeWhile_dropWhile_id)
  moreover have "count_list (takeWhile (\<lambda>c. c \<noteq> sep) s) sep = 0"
    by (metis (mono_tags, lifting) count_list_0_iff set_takeWhileD)
  moreover from mem obtain r where r: "dropWhile (\<lambda>c. c \<noteq> sep) s = sep # r"
    by (metis (mono_tags, lifting) dropWhile_eq_Nil_conv hd_dropWhile list.exhaust_sel)
  ultimately have "count_list r sep = 0"
    using c1 by simp
  then have "sep \<notin> set r"
    by (simp add: count_list_0_iff)
  then have "split_on sep (tl (dropWhile (\<lambda>c. c \<noteq> sep) s)) = [tl (dropWhile (\<lambda>c. c \<noteq> sep) s)]"
    using r by (simp add: split_on_notin)
  with tl_split_on [OF mem] have "tl (split_on sep s) = [tl (dropWhile (\<lambda>c. c \<noteq> sep) s)]"
    by simp
  moreover have "split_on sep s = hd (split_on sep s) # tl (split_on sep s)"
    by (simp add: split_on_not_Nil)
  ultimately show ?thesis
    by (simp add: hd_split_on)
qed

lemma split_on_join:
  "lines \<noteq> [] \<Longrightarrow> \<forall>l \<in> set lines. sep \<notin> set l \<Longrightarrow> split_on sep (join [sep] lines) = lines"
proof (induction lines)
  case Nil
  then show ?case by simp
next
  case (Cons p ps)
  show ?case
  proof (cases ps)
    case Nil
    with Cons.prems show ?thesis by (simp add: split_on_notin)
  next
    case (Cons q qs)
    with Cons.IH Cons.prems have "split_on sep (join [sep] (q # qs)) = q # qs"
      by simp
    with Cons Cons.prems show ?thesis
      by (simp add: split_on_append_sep)
  qed
qed

lemma map_of_foldl_update:
  "map_of (foldl (\<lambda>d kv. AList.update (fst kv) (snd kv) d) acc kvs) = map_of (rev kvs @ acc)"
proof (induction kvs arbitrary: acc)
  case Nil
  then show ?case by simp
next
  case (Cons kv kvs)
  show ?case
    by (simp add: Cons.IH update_conv' map_add_def fun_eq_iff split: option.splits)
qed

lemma map_of_rev_last:
  assumes "kvs = pre @ (k, v) # post" and "k \<notin> fst ` set post"
  shows "map_of (rev kvs) k = Some v"
proof -
  have "map_of (rev post) k = None"
    using assms(2) by (simp add: map_of_eq_None_iff)
  then show ?thesis
    using assms(1) by (simp add: map_add_def)
qed

section \<open>C1: a failed tool invocation gives the empty result\<close>

lemma get_java_processes_failed:
  "failed (tools [''jps'', ''-v'']) \<Longrightarrow> get_java_processes tools = Inr []"
  by (cases "tools [''jps'', ''-v'']")
     (simp_all add: get_java_processes_def get_java_processes_try_def subprocess_run_def
           split: exc.splits)

lemma analyze_web_components_failed:
  "failed (tools (split_ws (''jcmd '' @ pid @ '' VM.classloaders''))) \<Longrightarrow>
   analyze_web_components tools pid = Inr []"
  by (cases "tools (split_ws (''jcmd '' @ pid @ '' VM.classloaders''))")
     (simp_all add: analyze_web_components_def subprocess_run_def)

lemma analyze_threads_failed:
  "failed (tools (split_ws (''jstack '' @ pid))) \<Longrightarrow> analyze_threads tools pid = Inr []"
  by (cases "tools (split_ws (''jstack '' @ pid))")
     (simp_all add: analyze_threads_def subprocess_run_def)

lemma analyze_system_properties_failed:
  "failed (tools (split_ws (''jcmd '' @ pid @ '' VM.system_properties''))) \<Longrightarrow>
   analyze_system_properties tools pid = Inr []"
  by (cases "tools (split_ws (''jcmd '' @ pid @ '' VM.system_properties''))")
     (simp_all add: analyze_system_properties_def subprocess_run_def)

lemma get_java_processes_returns: "\<exists>d. get_java_processes tools = Inr d"
proof (cases "get_java_processes_try tools")
  case (Inl e)
  then show ?thesis
    by (cases e) (simp_all add: get_java_processes_def)
next
  case (Inr d)
  then show ?thesis
    by (simp add: get_java_processes_def)
qed

lemma analyze_web_components_returns: "\<exists>d. analyze_web_components tools pid = Inr d"
  by (cases "tools (split_ws (''jcmd '' @ pid @ '' VM.classloaders''))")
     (simp_all add: analyze_web_components_def subprocess_run_def)

lemma analyze_threads_returns: "\<exists>d. analyze_threads tools pid = Inr d"
proof (cases "tools (split_ws (''jstack '' @ pid))")
  case (Completed returncode stdout)
  then show ?thesis
    by (cases "parse_thread_dump stdout") (simp_all add: analyze_threads_def subprocess_run_def)
next
  case (Raises e)
  then show ?thesis
    by (simp add: analyze_threads_def subprocess_run_def)
qed

lemma analyze_system_properties_returns: "\<exists>d. analyze_system_properties tools pid = Inr d"
  by (cases "tools (split_ws (''jcmd '' @ pid @ '' VM.system_properties''))")
     (simp_all add: analyze_system_properties_def subprocess_run_def)

text \<open>
  Claim C1.  For each of the four components that invoke an external tool, when the
  invocation fails (it times out, raises another exception, or exits with a non-zero code)
  the component returns its empty value: the empty mapping for \<open>get_java_processes\<close> and
  \<open>analyze_system_properties\<close>, the empty list for \<open>analyze_web_components\<close> and
  \<open>analyze_threads\<close>.  The components return a value whatever the tools do: no exception
  reaches the caller.
\<close>

theorem tool_failure_gives_empty_result:
  "(failed (tools [''jps'', ''-v'']) \<longrightarrow> get_java_processes tools = Inr []) \<and>
   (failed (tools (split_ws (''jcmd '' @ pid @ '' VM.classloaders''))) \<longrightarrow>
      analyze_web_components tools pid = Inr []) \<and>
   (failed (tools (split_ws (''jstack '' @ pid))) \<longrightarrow> analyze_threads tools pid = Inr []) \<and>
   (failed (tools (split_ws (''jcmd '' @ pid @ '' VM.system_properties''))) \<longrightarrow>
      analyze_system_properties tools pid = Inr []) \<and>
   (\<exists>p. get_java_processes tools = Inr p) \<and>
   (\<exists>c. analyze_web_components tools pid = Inr c) \<and>
   (\<exists>t. analyze_threads tools pid = Inr t) \<and>
   (\<exists>s. analyze_system_properties tools pid = Inr s)"
  using get_java_processes_failed analyze_web_components_failed analyze_threads_failed
    analyze_system_properties_failed get_java_processes_returns analyze_web_components_returns
    analyze_threads_returns analyze_system_properties_returns
  by blast

lemma argv_42:
  "split_ws (''jcmd '' @ ''42'' @ '' VM.classloaders'') = [''jcmd'', ''42'', ''VM.classloaders'']"
  "split_ws (''jstack '' @ ''42'') = [''jstack'', ''42'']"
  "split_ws (''jcmd '' @ ''42'' @ '' VM.system_properties'') = [''jcmd'', ''42'', ''VM.system_properties'']"
  by (simp_all add: is_space_def whitespace_def)

theorem tool_failure_gives_empty_result_witness:
  "failed (broken_tools [''jps'', ''-v'']) \<and>
   failed (broken_tools (split_ws (''jcmd '' @ ''42'' @ '' VM.classloaders''))) \<and>
   failed (broken_tools (split_ws (''jstack '' @ ''42''))) \<and>
   failed (broken_tools (split_ws (''jcmd '' @ ''42'' @ '' VM.system_properties''))) \<and>
   get_java_processes broken_tools = Inr [] \<and>
   analyze_web_components broken_tools ''42'' = Inr [] \<and>
   analyze_threads broken_tools ''42'' = Inr [] \<and>
   analyze_system_properties broken_tools ''42'' = Inr []"
proof -
  have f: "failed (broken_tools [''jps'', ''-v''])"
    "failed (broken_tools (split_ws (''jcmd '' @ ''42'' @ '' VM.classloaders'')))"
    "failed (broken_tools (split_ws (''jstack '' @ ''42'')))"
    "failed (broken_tools (split_ws (''jcmd '' @ ''42'' @ '' VM.system_properties'')))"
    by (simp_all only: argv_42) (simp_all add: broken_tools_def)
  with tool_failure_gives_empty_result [of broken_tools "''42''"] show ?thesis
    by blast
qed

section \<open>C2: records of the classloader output\<close>

lemma strip_eq_Nil_iff: "strip s = [] \<longleftrightarrow> (\<forall>c \<in> set s. is_space c)"
proof
  assume "strip s = []"
  then have "dropWhile is_space (rev (dropWhile is_space s)) = []"
    by (simp add: strip_def)
  then have "\<forall>c \<in> set (rev (dropWhile is_space s)). is_space c"
    by (simp only: dropWhile_eq_Nil_conv)
  then have a: "\<forall>c \<in> set (dropWhile is_space s). is_space c"
    by simp
  have "dropWhile is_space s = []"
  proof (rule ccontr)
    assume n: "dropWhile is_space s \<noteq> []"
    then have "\<not> is_space (hd (dropWhile is_space s))"
      by (rule hd_dropWhile)
    moreover from n have "hd (dropWhile is_space s) \<in> set (dropWhile is_space s)"
      by simp
    ultimately show False using a by blast
  qed
  then show "\<forall>c \<in> set s. is_space c"
    by (simp add: dropWhile_eq_Nil_conv)
next
  assume "\<forall>c \<in> set s. is_space c"
  then show "strip s = []"
    by (auto simp: strip_def dest: set_dropWhileD)
qed

lemma startswith_subset: "startswith p s \<Longrightarrow> set p \<subseteq> set s"
  by (metis startswith_def set_take_subset)

lemma marker_strip_nonempty: "is_marker line \<Longrightarrow> strip line \<noteq> []"
proof -
  assume "is_marker line"
  then have "set ''ClassLoader'' \<subseteq> set line"
    unfolding is_marker_def by (rule startswith_subset)
  then have "CHR ''C'' \<in> set line"
    by simp
  moreover have "\<not> is_space CHR ''C''"
    by (simp add: is_space_def whitespace_def)
  ultimately show ?thesis
    by (auto simp: strip_eq_Nil_iff)
qed

lemma step_marker:
  "is_marker line \<Longrightarrow>
   classloader_step (loaders, current) line = (flush_loader (loaders, current), [(''type'', strip line)])"
  using marker_strip_nonempty [of line]
  by (simp add: classloader_step_def is_marker_def flush_loader_def)

lemma step_field:
  assumes "\<not> is_marker line" and "current \<noteq> []"
  shows "classloader_step (loaders, current) line = (loaders, add_field current line)"
proof (cases "length (split_on CHR '':'' (strip line)) = 2")
  case True
  then have c: "count_list (strip line) CHR '':'' = 1"
    by (simp add: length_split_on)
  then have "strip line \<noteq> []"
    by auto
  with assms True c split_on_two [OF True] show ?thesis
    by (simp add: classloader_step_def is_marker_def add_field_def Let_def)
next
  case False
  then have c: "count_list (strip line) CHR '':'' \<noteq> 1"
    by (simp add: length_split_on)
  with assms False show ?thesis
    by (simp add: classloader_step_def is_marker_def add_field_def)
qed

lemma step_no_current:
  "\<not> is_marker line \<Longrightarrow> classloader_step (loaders, []) line = (loaders, [])"
  by (simp add: classloader_step_def is_marker_def)

lemma add_field_nonempty: "current \<noteq> [] \<Longrightarrow> add_field current line \<noteq> []"
  by (simp add: add_field_def Let_def)

lemma foldl_add_field_nonempty: "current \<noteq> [] \<Longrightarrow> foldl add_field current fs \<noteq> []"
  by (induction fs arbitrary: current) (simp_all add: add_field_nonempty)

lemma loop_fields:
  "\<forall>l \<in> set fs. \<not> is_marker l \<Longrightarrow> current \<noteq> [] \<Longrightarrow>
   foldl classloader_step (loaders, current) fs = (loaders, foldl add_field current fs)"
  by (induction fs arbitrary: current) (simp_all add: step_field add_field_nonempty)

lemma loop_no_current:
  "\<forall>l \<in> set pre. \<not> is_marker l \<Longrightarrow> foldl classloader_step (loaders, []) pre = (loaders, [])"
  by (induction pre) (simp_all add: step_no_current)

lemma loop_block:
  assumes "is_marker (fst block)" and "\<forall>l \<in> set (snd block). \<not> is_marker l"
  shows "foldl classloader_step (loaders, current) (block_lines block) =
           (flush_loader (loaders, current), loader_record block)"
  using assms by (simp add: block_lines_def step_marker loop_fields loader_record_def)

lemma loader_record_nonempty: "loader_record block \<noteq> []"
  by (simp add: loader_record_def foldl_add_field_nonempty)

lemma loop_blocks:
  assumes "\<forall>b \<in> set blocks. is_marker (fst b) \<and> (\<forall>l \<in> set (snd b). \<not> is_marker l)"
  shows "flush_loader (foldl classloader_step (loaders, current) (concat (map block_lines blocks))) =
           flush_loader (loaders, current) @ map loader_record blocks"
  using assms
proof (induction blocks arbitrary: loaders current)
  case Nil
  then show ?case by simp
next
  case (Cons b bs)
  from Cons.prems have b: "is_marker (fst b)" "\<forall>l \<in> set (snd b). \<not> is_marker l"
    and bs: "\<forall>b \<in> set bs. is_marker (fst b) \<and> (\<forall>l \<in> set (snd b). \<not> is_marker l)"
    by simp_all
  have "flush_loader (foldl classloader_step (loaders, current) (concat (map block_lines (b # bs)))) =
        flush_loader (foldl classloader_step (flush_loader (loaders, current), loader_record b)
                        (concat (map block_lines bs)))"
    by (simp add: loop_block [OF b])
  also have "\<dots> = flush_loader (flush_loader (loaders, current), loader_record b) @ map loader_record bs"
    by (rule Cons.IH [OF bs])
  also have "\<dots> = flush_loader (loaders, current) @ map loader_record (b # bs)"
    by (simp add: flush_loader_def [of "(flush_loader (loaders, current), loader_record b)"]
        loader_record_nonempty)
  finally show ?case .
qed

lemma parse_classloader_lines_flush:
  "parse_classloader_lines lines = flush_loader (foldl classloader_step ([], []) lines)"
  by (simp add: parse_classloader_lines_def flush_loader_def split: prod.splits)

lemma parse_classloader_lines_drop_pre:
  "\<forall>l \<in> set pre. \<not> is_marker l \<Longrightarrow>
   parse_classloader_lines (pre @ rest) = parse_classloader_lines rest"
  by (simp add: parse_classloader_lines_flush loop_no_current)

text \<open>
  Claim C2, amended.  Write the lines of the output as some lines without a loader marker
  followed by blocks, each a line that begins with the marker \<open>ClassLoader\<close> followed by
  lines that do not.  The parser returns one record per block, in order: the marker line
  starts the record (its trimmed text under the key \<open>type\<close>) after the record in progress
  has been flushed, every following line of the block whose trimmed form contains exactly
  one colon adds the field made of the text before the colon and the text after it, both
  trimmed, and the last record is flushed at the end of the input.  A line with no colon or
  with more than one colon adds nothing.
\<close>

theorem classloader_blocks:
  assumes "split_on NL output = pre @ concat (map block_lines blocks)"
    and "\<forall>l \<in> set pre. \<not> is_marker l"
    and "\<forall>b \<in> set blocks. is_marker (fst b) \<and> (\<forall>l \<in> set (snd b). \<not> is_marker l)"
  shows "parse_classloader_output output = map loader_record blocks"
proof -
  have "parse_classloader_output output = parse_classloader_lines (concat (map block_lines blocks))"
    using assms(1,2) by (simp add: parse_classloader_output_def parse_classloader_lines_drop_pre)
  also have "\<dots> = flush_loader ([], []) @ map loader_record blocks"
    unfolding parse_classloader_lines_flush by (rule loop_blocks [OF assms(3)])
  finally show ?thesis
    by (simp add: flush_loader_def)
qed

lemma strip_examples:
  "strip ''ClassLoader app'' = ''ClassLoader app''"
  "strip ''ClassLoader ext'' = ''ClassLoader ext''"
  "strip ''  url: file:/x.jar'' = ''url: file:/x.jar''"
  "strip ''url: file:/x.jar'' = ''url: file:/x.jar''"
  "strip '' parent : ext '' = ''parent : ext''"
  "strip ''parent '' = ''parent''"
  "strip '' ext'' = ''ext''"
  "strip ''url'' = ''url''"
  "strip '' file:/x.jar'' = ''file:/x.jar''"
  by (simp_all add: strip_def is_space_def whitespace_def)

lemma marker_examples:
  "is_marker ''ClassLoader app''" "is_marker ''ClassLoader ext''"
  "\<not> is_marker ''name: boot''" "\<not> is_marker ''  url: file:/x.jar''"
  "\<not> is_marker '' parent : ext ''" "\<not> is_marker ''url: file:/x.jar''"
  by (simp_all add: is_marker_def startswith_def)

lemma example_classloaders_lines:
  "split_on NL example_classloaders =
     [''name: boot''] @
     concat (map block_lines [(''ClassLoader app'', [''  url: file:/x.jar'', '' parent : ext '']),
                              (''ClassLoader ext'', [])])"
  by (simp add: example_classloaders_def block_lines_def)

lemma example_loader_records:
  "map loader_record [(''ClassLoader app'', [''  url: file:/x.jar'', '' parent : ext '']),
                      (''ClassLoader ext'', [])] =
     [[(''type'', ''ClassLoader app''), (''parent'', ''ext'')], [(''type'', ''ClassLoader ext'')]]"
  by (simp add: loader_record_def add_field_def strip_examples)

theorem classloader_blocks_witness:
  "split_on NL example_classloaders =
     [''name: boot''] @
     concat (map block_lines [(''ClassLoader app'', [''  url: file:/x.jar'', '' parent : ext '']),
                              (''ClassLoader ext'', [])]) \<and>
   \<not> is_marker ''name: boot'' \<and>
   is_marker ''ClassLoader app'' \<and> \<not> is_marker ''  url: file:/x.jar'' \<and>
   \<not> is_marker '' parent : ext '' \<and> is_marker ''ClassLoader ext'' \<and>
   parse_classloader_output example_classloaders =
     [[(''type'', ''ClassLoader app''), (''parent'', ''ext'')], [(''type'', ''ClassLoader ext'')]]"
proof -
  have p: "\<forall>l \<in> set [''name: boot'']. \<not> is_marker l"
    by (simp add: marker_examples)
  have b: "\<forall>b \<in> set [(''ClassLoader app'', [''  url: file:/x.jar'', '' parent : ext '']),
                        (''ClassLoader ext'', [])].
             is_marker (fst b) \<and> (\<forall>l \<in> set (snd b). \<not> is_marker l)"
    by (simp add: marker_examples)
  from classloader_blocks [OF example_classloaders_lines p b] example_loader_records
  have "parse_classloader_output example_classloaders =
     [[(''type'', ''ClassLoader app''), (''parent'', ''ext'')], [(''type'', ''ClassLoader ext'')]]"
    by (simp only:)
  with example_classloaders_lines marker_examples show ?thesis
    by blast
qed

lemma url_classloaders_lines:
  "split_on NL url_classloaders = [''ClassLoader app'', ''url: file:/x.jar'']"
  by (simp add: url_classloaders_def)

lemma url_classloaders_result:
  "parse_classloader_output url_classloaders = [[(''type'', ''ClassLoader app'')]]"
  by (simp add: parse_classloader_output_def parse_classloader_lines_flush url_classloaders_lines
      step_marker step_field marker_examples flush_loader_def add_field_def strip_examples)

lemma url_first_colon_record:
  "map loader_record_first_colon [(''ClassLoader app'', [''url: file:/x.jar''])] =
     [[(''type'', ''ClassLoader app''), (''url'', ''file:/x.jar'')]]"
  by (simp add: loader_record_first_colon_def add_field_first_colon_def strip_examples)

text \<open>
  The claim as stated splits a field line at its first colon.  The code splits at every
  colon and keeps the line only when that gives two parts: for the marker line
  \<open>ClassLoader app\<close> followed by \<open>url: file:/x.jar\<close> the record has no \<open>url\<close> field,
  while splitting at the first colon would add \<open>url \<mapsto> file:/x.jar\<close>.
\<close>

theorem classloader_first_colon_counterexample:
  "split_on NL url_classloaders =
     concat (map block_lines [(''ClassLoader app'', [''url: file:/x.jar''])]) \<and>
   is_marker ''ClassLoader app'' \<and> \<not> is_marker ''url: file:/x.jar'' \<and>
   map loader_record_first_colon [(''ClassLoader app'', [''url: file:/x.jar''])] =
     [[(''type'', ''ClassLoader app''), (''url'', ''file:/x.jar'')]] \<and>
   parse_classloader_output url_classloaders = [[(''type'', ''ClassLoader app'')]] \<and>
   parse_classloader_output url_classloaders \<noteq>
     map loader_record_first_colon [(''ClassLoader app'', [''url: file:/x.jar''])]"
proof -
  have "parse_classloader_output url_classloaders \<noteq>
     map loader_record_first_colon [(''ClassLoader app'', [''url: file:/x.jar''])]"
    unfolding url_classloaders_result url_first_colon_record by simp
  moreover have "split_on NL url_classloaders =
     concat (map block_lines [(''ClassLoader app'', [''url: file:/x.jar''])])"
    by (simp add: url_classloaders_lines block_lines_def)
  ultimately show ?thesis
    using url_classloaders_result url_first_colon_record marker_examples by blast
qed

section \<open>C9: lines before the first loader marker\<close>

lemma lines_decompose:
  "\<exists>pre blocks. lines = pre @ concat (map block_lines blocks) \<and> well_blocked pre blocks"
proof (induction lines)
  case Nil
  have "[] = [] @ concat (map block_lines [])" "well_blocked [] []"
    by (simp_all add: well_blocked_def)
  then show ?case by blast
next
  case (Cons l ls)
  then obtain pre blocks where d: "ls = pre @ concat (map block_lines blocks)"
    and w: "well_blocked pre blocks"
    by (elim exE conjE)
  show ?case
  proof (cases "is_marker l")
    case True
    have "l # ls = [] @ concat (map block_lines ((l, pre) # blocks))"
      using d by (simp add: block_lines_def)
    moreover have "well_blocked [] ((l, pre) # blocks)"
      using True w by (simp add: well_blocked_def)
    ultimately show ?thesis by blast
  next
    case False
    have "l # ls = (l # pre) @ concat (map block_lines blocks)"
      using d by simp
    moreover have "well_blocked (l # pre) blocks"
      using False w by (simp add: well_blocked_def)
    ultimately show ?thesis by blast
  qed
qed

lemma filter_marker_blocks:
  "\<forall>b \<in> set blocks. is_marker (fst b) \<and> (\<forall>l \<in> set (snd b). \<not> is_marker l) \<Longrightarrow>
   length (filter is_marker (concat (map block_lines blocks))) = length blocks"
proof (induction blocks)
  case Nil
  then show ?case by simp
next
  case (Cons b bs)
  then have "filter is_marker (snd b) = []"
    by (simp add: filter_empty_conv)
  with Cons show ?case
    by (simp add: block_lines_def)
qed

lemma update_starts_with_type:
  "starts_with_type loader \<Longrightarrow> starts_with_type (AList.update k v loader)"
  by (cases loader) (auto simp: starts_with_type_def)

lemma add_field_starts_with_type:
  "starts_with_type loader \<Longrightarrow> starts_with_type (add_field loader line)"
  by (simp add: add_field_def Let_def update_starts_with_type)

lemma loader_record_starts_with_type: "starts_with_type (loader_record block)"
proof -
  have "starts_with_type loader \<Longrightarrow> starts_with_type (foldl add_field loader fs)" for loader fs
    by (induction fs arbitrary: loader) (simp_all add: add_field_starts_with_type)
  moreover have "starts_with_type [(''type'', strip (fst block))]"
    by (simp add: starts_with_type_def)
  ultimately show ?thesis
    by (simp add: loader_record_def)
qed

lemma parse_classloader_lines_markers:
  "length (parse_classloader_lines lines) = length (filter is_marker lines) \<and>
   (\<forall>loader \<in> set (parse_classloader_lines lines). starts_with_type loader)"
proof -
  from lines_decompose [of lines] obtain pre blocks where
    d1: "lines = pre @ concat (map block_lines blocks)" and w: "well_blocked pre blocks"
    by (elim exE conjE)
  from w have d: "lines = pre @ concat (map block_lines blocks)" "\<forall>l \<in> set pre. \<not> is_marker l"
      "\<forall>b \<in> set blocks. is_marker (fst b) \<and> (\<forall>l \<in> set (snd b). \<not> is_marker l)"
    using d1 by (simp_all add: well_blocked_def)
  have "parse_classloader_lines lines = parse_classloader_lines (concat (map block_lines blocks))"
    using d(1,2) by (simp add: parse_classloader_lines_drop_pre)
  also have "\<dots> = flush_loader ([], []) @ map loader_record blocks"
    unfolding parse_classloader_lines_flush by (rule loop_blocks [OF d(3)])
  finally have r: "parse_classloader_lines lines = map loader_record blocks"
    by (simp add: flush_loader_def)
  from d(2) have "filter is_marker pre = []"
    by (simp add: filter_empty_conv)
  with d(1) filter_marker_blocks [OF d(3)] have "length (filter is_marker lines) = length blocks"
    by simp
  with r show ?thesis
    by (simp add: loader_record_starts_with_type)
qed

text \<open>
  Claim C9.  Lines that come before the first line beginning with the loader marker attach
  to no record and are discarded: the parser returns what it returns for the remaining
  lines.  The returned list has one record per marker line, and every record begins with
  the \<open>type\<close> key that its marker line inserted.
\<close>

theorem classloader_lines_before_first_marker:
  assumes "split_on NL output = pre @ rest" and "\<forall>l \<in> set pre. \<not> is_marker l"
  shows "parse_classloader_output output = parse_classloader_lines rest \<and>
         length (parse_classloader_output output) = length (filter is_marker rest) \<and>
         (\<forall>loader \<in> set (parse_classloader_output output). starts_with_type loader)"
proof -
  have "parse_classloader_output output = parse_classloader_lines rest"
    using assms by (simp add: parse_classloader_output_def parse_classloader_lines_drop_pre)
  with parse_classloader_lines_markers [of rest] show ?thesis
    by simp
qed

lemma orphan_classloaders_lines:
  "split_on NL orphan_classloaders = [''parent: none'', ''  url: x''] @ [''ClassLoader app'', ''type: web'']"
  by (simp add: orphan_classloaders_def)

lemma orphan_markers:
  "\<not> is_marker ''parent: none''" "\<not> is_marker ''  url: x''" "is_marker ''ClassLoader app''"
  "\<not> is_marker ''type: web''"
  by (simp_all add: is_marker_def startswith_def)

lemma orphan_rest_result:
  "parse_classloader_lines [''ClassLoader app'', ''type: web''] = [[(''type'', ''web'')]]"
  by (simp add: parse_classloader_lines_flush step_marker step_field orphan_markers
      flush_loader_def add_field_def strip_def is_space_def whitespace_def)

theorem classloader_lines_before_first_marker_witness:
  "split_on NL orphan_classloaders = [''parent: none'', ''  url: x''] @ [''ClassLoader app'', ''type: web''] \<and>
   \<not> is_marker ''parent: none'' \<and> \<not> is_marker ''  url: x'' \<and>
   parse_classloader_output orphan_classloaders = [[(''type'', ''web'')]] \<and>
   length (filter is_marker [''ClassLoader app'', ''type: web'']) = 1 \<and>
   starts_with_type [(''type'', ''web'')]"
proof -
  have p: "\<forall>l \<in> set [''parent: none'', ''  url: x'']. \<not> is_marker l"
    by (simp add: orphan_markers)
  from classloader_lines_before_first_marker [OF orphan_classloaders_lines p]
  have c: "parse_classloader_output orphan_classloaders =
             parse_classloader_lines [''ClassLoader app'', ''type: web'']"
    "length (parse_classloader_output orphan_classloaders) =
       length (filter is_marker [''ClassLoader app'', ''type: web''])"
    "\<forall>loader \<in> set (parse_classloader_output orphan_classloaders). starts_with_type loader"
    by blast+
  from c(1) have r: "parse_classloader_output orphan_classloaders = [[(''type'', ''web'')]]"
    by (simp only: orphan_rest_result)
  from c(3) have t: "starts_with_type [(''type'', ''web'')]"
    unfolding r by simp
  from c(2) have n: "length (filter is_marker [''ClassLoader app'', ''type: web'']) = 1"
    unfolding r by simp
  show ?thesis
    by (intro conjI orphan_classloaders_lines orphan_markers r t n)
qed

section \<open>C3: one entry per line of the process listing\<close>

lemma split_ws_space_Cons: "is_space c \<Longrightarrow> split_ws (c # cs) = split_ws cs"
  by simp

lemma split_ws_snoc_space: "is_space c \<Longrightarrow> split_ws (p @ [c]) = split_ws p"
proof (induction p)
  case Nil
  then show ?case by simp
next
  case (Cons a as)
  show ?case
  proof (cases "as = []")
    case True
    with Cons.prems show ?thesis by simp
  next
    case False
    then have h: "hd (as @ [c]) = hd as" "as @ [c] \<noteq> []"
      by simp_all
    have "split_ws ((a # as) @ [c]) =
            (if is_space a then split_ws (as @ [c])
             else if as @ [c] = [] \<or> is_space (hd (as @ [c])) then [a] # split_ws (as @ [c])
             else (case split_ws (as @ [c]) of [] \<Rightarrow> [[a]] | t # ts \<Rightarrow> (a # t) # ts))"
      by (simp only: append_Cons split_ws.simps(2))
    also have "\<dots> =
            (if is_space a then split_ws as
             else if as = [] \<or> is_space (hd as) then [a] # split_ws as
             else (case split_ws as of [] \<Rightarrow> [[a]] | t # ts \<Rightarrow> (a # t) # ts))"
      using False by (simp only: Cons.IH [OF Cons.prems] h)
    also have "\<dots> = split_ws (a # as)"
      by (simp only: split_ws.simps(2))
    finally show ?thesis .
  qed
qed

lemma split_on_snoc_sep: "split_on sep (s @ [sep]) = split_on sep s @ [[]]"
  by (induction s) (auto simp: split_on_not_Nil split: list.splits)

lemma split_on_snoc_other:
  "c \<noteq> sep \<Longrightarrow>
   split_on sep (s @ [c]) = butlast (split_on sep s) @ [last (split_on sep s) @ [c]]"
  by (induction s) (auto simp: split_on_not_Nil split: list.splits)

lemma token_lines_lstrip:
  "token_lines (split_on NL (dropWhile is_space s)) = token_lines (split_on NL s)"
proof (induction s)
  case Nil
  then show ?case by simp
next
  case (Cons c cs)
  show ?case
  proof (cases "is_space c")
    case True
    obtain p ps where ps: "split_on NL cs = p # ps"
      using split_on_not_Nil by (cases "split_on NL cs") auto
    from True ps have "token_lines (split_on NL (c # cs)) = token_lines (split_on NL cs)"
      by (simp add: token_lines_def)
    with True Cons.IH show ?thesis by simp
  next
    case False
    then show ?thesis by simp
  qed
qed

lemma token_lines_snoc_space:
  assumes "is_space c"
  shows "token_lines (split_on NL (s @ [c])) = token_lines (split_on NL s)"
proof (cases "c = NL")
  case True
  then show ?thesis
    by (simp add: split_on_snoc_sep token_lines_def)
next
  case False
  have "split_on NL s = butlast (split_on NL s) @ [last (split_on NL s)]"
    by (simp add: split_on_not_Nil)
  then have "token_lines (split_on NL s) =
               token_lines (butlast (split_on NL s)) @ token_lines [last (split_on NL s)]"
    by (metis filter_append map_append token_lines_def)
  with False assms show ?thesis
    by (simp add: split_on_snoc_other token_lines_def split_ws_snoc_space)
qed

lemma token_lines_rstrip:
  "token_lines (split_on NL (rev (dropWhile is_space (rev s)))) = token_lines (split_on NL s)"
proof (induction s rule: rev_induct)
  case Nil
  then show ?case by simp
next
  case (snoc c cs)
  then show ?case
    by (cases "is_space c") (simp_all add: token_lines_snoc_space)
qed

lemma token_lines_strip: "token_lines (split_on NL (strip s)) = token_lines (split_on NL s)"
  by (simp add: strip_def token_lines_rstrip token_lines_lstrip)

lemma foldl_jps_line:
  "foldl jps_line acc lines =
     foldl (\<lambda>d kv. AList.update (fst kv) (snd kv) d) acc
       (map entry_of_tokens (filter (\<lambda>t. 1 < length t) (token_lines lines)))"
proof (induction lines arbitrary: acc)
  case Nil
  then show ?case by (simp add: token_lines_def)
next
  case (Cons l ls)
  have "jps_line acc l =
          (if 1 < length (split_ws l)
           then AList.update (fst (entry_of_tokens (split_ws l))) (snd (entry_of_tokens (split_ws l))) acc
           else acc)"
    by (cases l) (simp_all add: jps_line_def entry_of_tokens_def Let_def)
  then show ?case
    using Cons.IH by (auto simp: token_lines_def)
qed

lemma foldl_update_distinct:
  "distinct (map fst (acc @ kvs)) \<Longrightarrow>
   foldl (\<lambda>d kv. AList.update (fst kv) (snd kv) d) acc kvs = acc @ kvs"
proof (induction kvs arbitrary: acc)
  case Nil
  then show ?case by simp
next
  case (Cons kv kvs)
  from Cons.prems have "fst kv \<notin> fst ` set acc"
    by auto
  then have u: "AList.update (fst kv) (snd kv) acc = acc @ [kv]"
    by (induction acc) auto
  from Cons.prems have "distinct (map fst ((acc @ [kv]) @ kvs))"
    by simp
  from Cons.IH [OF this] u show ?case by simp
qed

lemma wellformed_token_lines:
  "\<forall>line \<in> set (filter (\<lambda>line. line \<noteq> []) lines). 2 \<le> length (split_ws line) \<Longrightarrow>
   map entry_of_tokens (filter (\<lambda>t. 1 < length t) (token_lines lines)) =
   map jps_entry (filter (\<lambda>line. line \<noteq> []) lines)"
proof (induction lines)
  case Nil
  then show ?case by (simp add: token_lines_def)
next
  case (Cons l ls)
  from Cons.prems have ih: "map entry_of_tokens (filter (\<lambda>t. 1 < length t) (token_lines ls)) =
      map jps_entry (filter (\<lambda>line. line \<noteq> []) ls)"
    by (intro Cons.IH) simp
  show ?case
  proof (cases "l = []")
    case True
    with ih show ?thesis by (simp add: token_lines_def)
  next
    case False
    with Cons.prems have len: "2 \<le> length (split_ws l)"
      by simp
    then obtain a b r where t: "split_ws l = a # b # r"
      by (cases "split_ws l"; cases "tl (split_ws l)") auto
    then have "entry_of_tokens (split_ws l) = jps_entry l"
      by (simp add: entry_of_tokens_def jps_entry_def)
    with False t ih show ?thesis
      by (simp add: token_lines_def)
  qed
qed

lemma get_java_processes_completed:
  "tools [''jps'', ''-v''] = Completed 0 stdout \<Longrightarrow>
   get_java_processes tools =
     Inr (foldl (\<lambda>d kv. AList.update (fst kv) (snd kv) d) []
           (map entry_of_tokens (filter (\<lambda>t. 1 < length t) (token_lines (split_on NL stdout)))))"
  by (simp add: get_java_processes_def get_java_processes_try_def subprocess_run_def
      foldl_jps_line token_lines_strip)

text \<open>
  Claim C3, amended.  Take a process listing that exits with code 0 and in which every
  non-empty line has at least two whitespace-delimited tokens (a process id and a command).
  Then \<open>get_java_processes\<close> returns a mapping in which looking up a key gives the entry
  of the last non-empty line whose first token is that key: the key is the first token and
  the value is the remaining tokens joined by single spaces.  When the first tokens of the
  non-empty lines are pairwise distinct, the mapping has exactly one entry per non-empty
  line, in the order of the lines.
\<close>

theorem java_processes_one_entry_per_line:
  assumes "tools [''jps'', ''-v''] = Completed 0 stdout"
    and "\<forall>line \<in> set (nonempty_lines stdout). 2 \<le> length (split_ws line)"
  shows "\<exists>processes.
           get_java_processes tools = Inr processes \<and>
           map_of processes = map_of (rev (map jps_entry (nonempty_lines stdout))) \<and>
           (distinct (map (\<lambda>line. hd (split_ws line)) (nonempty_lines stdout)) \<longrightarrow>
              processes = map jps_entry (nonempty_lines stdout))"
proof -
  let ?f = "\<lambda>d kv. AList.update (fst kv) (snd kv) d"
  let ?entries = "map jps_entry (nonempty_lines stdout)"
  from assms(2) have e: "map entry_of_tokens (filter (\<lambda>t. 1 < length t) (token_lines (split_on NL stdout))) = ?entries"
    unfolding nonempty_lines_def by (rule wellformed_token_lines)
  with get_java_processes_completed [of tools stdout, OF assms(1)]
  have r: "get_java_processes tools = Inr (foldl ?f [] ?entries)"
    by simp
  have m: "map_of (foldl ?f [] ?entries) = map_of (rev ?entries)"
    by (simp add: map_of_foldl_update)
  have d: "foldl ?f [] ?entries = ?entries"
    if "distinct (map (\<lambda>line. hd (split_ws line)) (nonempty_lines stdout))"
  proof -
    have "map fst ([] @ ?entries) = map (\<lambda>line. hd (split_ws line)) (nonempty_lines stdout)"
      by (simp add: jps_entry_def comp_def)
    with that have "distinct (map fst ([] @ ?entries))"
      by (simp only:)
    from foldl_update_distinct [OF this] show ?thesis
      by simp
  qed
  from r m d show ?thesis
    by blast
qed

lemma example_listing_lines:
  "nonempty_lines example_listing = [''4711 Bootstrap start -Xmx1g'', ''4802 Jps  -v'']"
  by (simp add: nonempty_lines_def example_listing_def)

lemma example_listing_tokens:
  "split_ws ''4711 Bootstrap start -Xmx1g'' = [''4711'', ''Bootstrap'', ''start'', ''-Xmx1g'']"
  "split_ws ''4802 Jps  -v'' = [''4802'', ''Jps'', ''-v'']"
  by (simp_all add: is_space_def whitespace_def)

theorem java_processes_one_entry_per_line_witness:
  "example_listing_tools [''jps'', ''-v''] = Completed 0 example_listing \<and>
   list_all (\<lambda>line. 2 \<le> length (split_ws line)) (nonempty_lines example_listing) \<and>
   distinct (map (\<lambda>line. hd (split_ws line)) (nonempty_lines example_listing)) \<and>
   get_java_processes example_listing_tools =
     Inr [(''4711'', ''Bootstrap start -Xmx1g''), (''4802'', ''Jps -v'')]"
proof -
  have t: "example_listing_tools [''jps'', ''-v''] = Completed 0 example_listing"
    by (simp add: example_listing_tools_def)
  have w: "\<forall>line \<in> set (nonempty_lines example_listing). 2 \<le> length (split_ws line)"
    by (simp add: example_listing_lines example_listing_tokens del: split_ws.simps)
  have d: "distinct (map (\<lambda>line. hd (split_ws line)) (nonempty_lines example_listing))"
    by (simp add: example_listing_lines example_listing_tokens del: split_ws.simps)
  from java_processes_one_entry_per_line [of example_listing_tools example_listing, OF t w] d
  have "get_java_processes example_listing_tools = Inr (map jps_entry (nonempty_lines example_listing))"
    by blast
  then have "get_java_processes example_listing_tools =
     Inr [(''4711'', ''Bootstrap start -Xmx1g''), (''4802'', ''Jps -v'')]"
    by (simp add: example_listing_lines jps_entry_def example_listing_tokens del: split_ws.simps)
  moreover from w have "list_all (\<lambda>line. 2 \<le> length (split_ws line)) (nonempty_lines example_listing)"
    by (simp add: list_all_iff)
  ultimately show ?thesis
    using t d by blast
qed

lemma duplicate_pid_lines: "nonempty_lines duplicate_pid_listing = [''1 a'', ''1 b'']"
  by (simp add: nonempty_lines_def duplicate_pid_listing_def)

lemma duplicate_pid_tokens: "split_ws ''1 a'' = [''1'', ''a'']" "split_ws ''1 b'' = [''1'', ''b'']"
  by (simp_all add: is_space_def whitespace_def)

lemma duplicate_pid_strip: "split_on NL (strip duplicate_pid_listing) = [''1 a'', ''1 b'']"
  by (simp add: strip_def duplicate_pid_listing_def is_space_def whitespace_def)

lemma duplicate_pid_loop: "foldl jps_line [] [''1 a'', ''1 b''] = [(''1'', ''b'')]"
  by (simp add: jps_line_def duplicate_pid_tokens del: split_ws.simps)

lemma duplicate_pid_result: "get_java_processes duplicate_pid_tools = Inr [(''1'', ''b'')]"
  by (simp add: get_java_processes_def get_java_processes_try_def subprocess_run_def
      duplicate_pid_tools_def duplicate_pid_strip duplicate_pid_loop del: foldl.simps)

text \<open>
  The claim as stated fails when two well-formed lines begin with the same token: the
  listing \<open>1 a\<close>, \<open>1 b\<close> has two non-empty lines, each with two tokens, and the
  mapping has the single entry \<open>1 \<mapsto> b\<close>.
\<close>

theorem java_processes_duplicate_pid_counterexample:
  "list_all (\<lambda>line. 2 \<le> length (split_ws line)) (nonempty_lines duplicate_pid_listing) \<and>
   length (nonempty_lines duplicate_pid_listing) = 2 \<and>
   get_java_processes duplicate_pid_tools = Inr [(''1'', ''b'')] \<and>
   get_java_processes duplicate_pid_tools \<noteq> Inr (map jps_entry (nonempty_lines duplicate_pid_listing))"
  by (simp add: duplicate_pid_result duplicate_pid_lines duplicate_pid_tokens jps_entry_def
      del: split_ws.simps)

section \<open>C4: records of the thread dump\<close>

lemma is_in_subset: "is_in p s \<Longrightarrow> set p \<subseteq> set s"
proof (induction s)
  case Nil
  then show ?case by simp
next
  case (Cons c cs)
  from Cons.prems have "startswith p (c # cs) \<or> is_in p cs"
    by simp
  then show ?case
  proof
    assume "startswith p (c # cs)"
    then show ?thesis by (rule startswith_subset)
  next
    assume "is_in p cs"
    then have "set p \<subseteq> set cs" by (rule Cons.IH)
    then show ?thesis by auto
  qed
qed

lemma header_index:
  assumes "is_header line"
  shows "index (split_on DQ line) 1 = Inr (quoted_name line)"
proof -
  from assms obtain t where l: "line = DQ # t"
    by (cases line) (simp_all add: is_header_def startswith_def)
  obtain p ps where s: "split_on DQ t = p # ps"
    using split_on_not_Nil [of DQ t] by (cases "split_on DQ t") simp_all
  have "p = takeWhile (\<lambda>c. c \<noteq> DQ) t"
    using hd_split_on [of DQ t] s by simp
  with l s show ?thesis
    by (simp add: index_def quoted_name_def)
qed

lemma state_index:
  assumes "is_in ''java.lang.Thread.State:'' line"
  shows "index (split_on CHR '':'' line) 1 = Inr (split_on CHR '':'' line ! 1)"
proof -
  from is_in_subset [OF assms] have "CHR '':'' \<in> set line"
    by simp
  then have "count_list line CHR '':'' \<noteq> 0"
    by (simp add: count_list_0_iff)
  then have "1 < length (split_on CHR '':'' line)"
    by (simp add: length_split_on)
  then show ?thesis
    by (simp add: index_def)
qed

lemma thread_step_eq: "thread_step st line = Inr (thread_step_result st line)"
proof (cases st)
  case (Pair threads current)
  show ?thesis
  proof (cases "is_header line")
    case True
    with Pair header_index [OF True] show ?thesis
      by (simp add: thread_step_def thread_step_result_def is_header_def)
  next
    case False
    show ?thesis
    proof (cases "is_in ''java.lang.Thread.State:'' line \<and> current \<noteq> None")
      case True
      with Pair False state_index [of line] show ?thesis
        by (simp add: thread_step_def thread_step_result_def is_header_def)
    next
      case n: False
      with Pair False show ?thesis
        by (auto simp: thread_step_def thread_step_result_def is_header_def)
    qed
  qed
qed

lemma thread_loop_eq: "thread_loop st lines = Inr (foldl thread_step_result st lines)"
  by (induction lines arbitrary: st) (simp_all add: thread_step_eq)

lemma parse_thread_lines_eq:
  "parse_thread_lines lines =
     Inr (flush (fst (foldl thread_step_result ([], None) lines))
                (snd (foldl thread_step_result ([], None) lines)))"
  by (simp add: parse_thread_lines_def thread_loop_eq split: prod.splits)

lemma step_result_no_current:
  "\<not> is_header line \<Longrightarrow> thread_step_result (threads, None) line = (threads, None)"
  by (simp add: thread_step_result_def)

lemma loop_result_no_current:
  "\<forall>l \<in> set pre. \<not> is_header l \<Longrightarrow> foldl thread_step_result (threads, None) pre = (threads, None)"
  by (induction pre) (simp_all add: step_result_no_current)

lemma step_result_grows: "\<exists>more. fst (thread_step_result st line) = fst st @ more"
  by (cases "snd st") (simp_all add: thread_step_result_def flush_def)

lemma loop_result_grows: "\<exists>more. fst (foldl thread_step_result st lines) = fst st @ more"
proof (induction lines arbitrary: st)
  case Nil
  then show ?case by simp
next
  case (Cons l ls)
  from step_result_grows [of st l] obtain m1 where m1: "fst (thread_step_result st l) = fst st @ m1"
    by (elim exE)
  from Cons.IH [of "thread_step_result st l"] obtain m2 where
    "fst (foldl thread_step_result (thread_step_result st l) ls) = fst (thread_step_result st l) @ m2"
    by (elim exE)
  with m1 have "fst (foldl thread_step_result st (l # ls)) = fst st @ (m1 @ m2)"
    by simp
  then show ?case by (rule exI)
qed

lemma step_result_current_name:
  assumes "snd st = Some t"
  shows "(\<exists>t'. thread_step_result st line = (fst st, Some t') \<and> name t' = name t) \<or>
         (\<exists>new. thread_step_result st line = (fst st @ [t], Some new))"
  using assms by (cases st) (auto simp: thread_step_result_def flush_def)

lemma loop_result_current:
  "snd st = Some t \<Longrightarrow>
   \<exists>t' more. name t' = name t \<and>
     flush (fst (foldl thread_step_result st lines)) (snd (foldl thread_step_result st lines)) =
       fst st @ t' # more"
proof (induction lines arbitrary: st t)
  case Nil
  then have "flush (fst st) (snd st) = fst st @ t # []"
    by (simp add: flush_def)
  then show ?case by auto
next
  case (Cons l ls)
  from step_result_current_name [OF Cons.prems, of l] show ?case
  proof (elim disjE exE conjE)
    fix t'
    assume s: "thread_step_result st l = (fst st, Some t')" and n: "name t' = name t"
    from s have "snd (thread_step_result st l) = Some t'" by simp
    from Cons.IH [OF this] obtain t'' more where
      "name t'' = name t'"
      "flush (fst (foldl thread_step_result (thread_step_result st l) ls))
             (snd (foldl thread_step_result (thread_step_result st l) ls)) =
         fst (thread_step_result st l) @ t'' # more"
      by (elim exE conjE)
    with s n have "name t'' = name t \<and>
      flush (fst (foldl thread_step_result st (l # ls))) (snd (foldl thread_step_result st (l # ls))) =
         fst st @ t'' # more"
      by simp
    then show ?thesis by blast
  next
    fix new
    assume s: "thread_step_result st l = (fst st @ [t], Some new)"
    let ?r = "foldl thread_step_result (thread_step_result st l) ls"
    from loop_result_grows [of "thread_step_result st l" ls] s obtain m where
      m: "fst ?r = (fst st @ [t]) @ m"
      by auto
    have "\<exists>more. flush (fst ?r) (snd ?r) = fst st @ t # more"
      using m by (cases "snd ?r") (simp_all add: flush_def)
    then obtain more where "flush (fst ?r) (snd ?r) = fst st @ t # more"
      by (elim exE)
    then have "name t = name t \<and>
      flush (fst (foldl thread_step_result st (l # ls))) (snd (foldl thread_step_result st (l # ls))) =
         fst st @ t # more"
      by simp
    then show ?thesis by blast
  qed
qed

lemma header_record:
  assumes "is_header h"
  shows "\<exists>ths t more. parse_thread_lines pre = Inr ths \<and> name t = quoted_name h \<and>
           parse_thread_lines (pre @ h # post) = Inr (ths @ t # more)"
proof -
  let ?s = "foldl thread_step_result ([], None) pre"
  let ?ths = "flush (fst ?s) (snd ?s)"
  let ?t0 = "\<lparr>name = quoted_name h, state = None, stack = []\<rparr>"
  have p: "parse_thread_lines pre = Inr ?ths"
    by (rule parse_thread_lines_eq)
  have h: "thread_step_result ?s h = (?ths, Some ?t0)"
    using assms by (simp add: thread_step_result_def)
  from loop_result_current [of "(?ths, Some ?t0)" ?t0 post] obtain t more where
    t: "name t = name ?t0"
       "flush (fst (foldl thread_step_result (?ths, Some ?t0) post))
              (snd (foldl thread_step_result (?ths, Some ?t0) post)) = ?ths @ t # more"
    by auto
  have "parse_thread_lines (pre @ h # post) = Inr (?ths @ t # more)"
    unfolding parse_thread_lines_eq using h t(2) by simp
  with p t(1) show ?thesis
    by auto
qed

lemma parse_thread_lines_drop_pre:
  "\<forall>l \<in> set pre. \<not> is_header l \<Longrightarrow> parse_thread_lines (pre @ rest) = parse_thread_lines rest"
  by (simp add: parse_thread_lines_eq loop_result_no_current)

lemma step_header:
  "is_header l \<Longrightarrow>
   thread_step_result (threads, current) l =
     (flush threads current, Some \<lparr>name = quoted_name l, state = None, stack = []\<rparr>)"
  by (simp add: thread_step_result_def)

lemma step_state:
  "\<not> is_header l \<Longrightarrow> is_in ''java.lang.Thread.State:'' l \<Longrightarrow>
   thread_step_result (threads, Some t) l =
     (threads, Some (t\<lparr>state := Some (strip (split_on CHR '':'' l ! 1))\<rparr>))"
  by (simp add: thread_step_result_def)

lemma step_frame:
  "\<not> is_header l \<Longrightarrow> \<not> is_in ''java.lang.Thread.State:'' l \<Longrightarrow> startswith ''at '' (strip l) \<Longrightarrow>
   thread_step_result (threads, Some t) l = (threads, Some (t\<lparr>stack := stack t @ [strip l]\<rparr>))"
  by (simp add: thread_step_result_def)

lemma is_in_append: "is_in p (a @ p @ b)"
proof (induction a)
  case Nil
  have "startswith p (p @ b)"
    by (simp add: startswith_def)
  then show ?case
    by (cases "p @ b") (simp_all del: append_eq_Cons_conv add: startswith_def)
next
  case (Cons c cs)
  then show ?case by simp
qed

lemma strip_header: "is_header a \<Longrightarrow> is_header (strip a)"
proof -
  assume "is_header a"
  then obtain t where a: "a = DQ # t"
    by (cases a) (simp_all add: is_header_def startswith_def)
  have n: "\<not> is_space DQ"
    by (simp add: is_space_def whitespace_def)
  then have "strip a = rev (dropWhile is_space (rev t @ [DQ]))"
    using a by (simp add: strip_def)
  also have "\<dots> = rev (dropWhile is_space (rev t) @ [DQ])"
    using n by (simp add: dropWhile_append3)
  finally show ?thesis
    by (simp add: is_header_def startswith_def)
qed

lemma frame_not_header: "startswith ''at '' (strip a) \<Longrightarrow> \<not> is_header a"
proof
  assume f: "startswith ''at '' (strip a)" and "is_header a"
  then have "is_header (strip a)" by (simp add: strip_header)
  with f show False
    by (cases "strip a") (simp_all add: is_header_def startswith_def)
qed

lemma state_line_facts:
  assumes "\<forall>c \<in> set indent. is_space c"
  shows "\<not> is_header (indent @ ''java.lang.Thread.State: RUNNABLE'')"
    and "is_in ''java.lang.Thread.State:'' (indent @ ''java.lang.Thread.State: RUNNABLE'')"
    and "strip (split_on CHR '':'' (indent @ ''java.lang.Thread.State: RUNNABLE'') ! 1) = ''RUNNABLE''"
proof -
  have sp: "\<not> is_space DQ" "\<not> is_space CHR '':''"
    by (simp_all add: is_space_def whitespace_def)
  show "\<not> is_header (indent @ ''java.lang.Thread.State: RUNNABLE'')"
    using assms sp(1) by (cases indent) (auto simp: is_header_def startswith_def)
  have "is_in ''java.lang.Thread.State:'' (indent @ ''java.lang.Thread.State:'' @ '' RUNNABLE'')"
    by (rule is_in_append)
  then show "is_in ''java.lang.Thread.State:'' (indent @ ''java.lang.Thread.State: RUNNABLE'')"
    by simp
  from assms sp(2) have "CHR '':'' \<notin> set (indent @ ''java.lang.Thread.State'')"
    by auto
  from split_on_append_sep [OF this, of "'' RUNNABLE''"]
  have "split_on CHR '':'' (indent @ ''java.lang.Thread.State: RUNNABLE'') =
          [indent @ ''java.lang.Thread.State'', '' RUNNABLE'']"
    by simp
  then show "strip (split_on CHR '':'' (indent @ ''java.lang.Thread.State: RUNNABLE'') ! 1) = ''RUNNABLE''"
    by (simp add: strip_def is_space_def whitespace_def)
qed

lemma flush_after_loop:
  "\<exists>more. flush (fst (foldl thread_step_result (t # threads, current) post))
                 (snd (foldl thread_step_result (t # threads, current) post)) = t # more"
proof -
  let ?r = "foldl thread_step_result (t # threads, current) post"
  from loop_result_grows [of "(t # threads, current)" post] obtain m where "fst ?r = (t # threads) @ m"
    by auto
  then show ?thesis
    by (cases "snd ?r") (simp_all add: flush_def)
qed

lemma example_shape:
  assumes i: "\<forall>c \<in> set indent. is_space c"
    and a1: "startswith ''at '' (strip a1)" "\<not> is_in ''java.lang.Thread.State:'' a1"
    and a2: "startswith ''at '' (strip a2)" "\<not> is_in ''java.lang.Thread.State:'' a2"
  shows "\<exists>more. parse_thread_lines
           ([DQ # ''main'' @ DQ # t1, indent @ ''java.lang.Thread.State: RUNNABLE'', a1, a2,
             DQ # ''main2'' @ DQ # t2] @ post) =
         Inr (\<lparr>name = ''main'', state = Some ''RUNNABLE'', stack = [strip a1, strip a2]\<rparr> # more)"
proof -
  define h1 where "h1 = DQ # ''main'' @ DQ # t1"
  define h2 where "h2 = DQ # ''main2'' @ DQ # t2"
  define s where "s = indent @ ''java.lang.Thread.State: RUNNABLE''"
  define t where "t = \<lparr>name = ''main'', state = Some ''RUNNABLE'', stack = [strip a1, strip a2]\<rparr>"
  define c2 where "c2 = Some \<lparr>name = quoted_name h2, state = None, stack = []\<rparr>"
  have h: "is_header h1" "is_header h2" "quoted_name h1 = ''main''"
    by (simp_all add: h1_def h2_def is_header_def startswith_def quoted_name_def)
  have sf: "\<not> is_header s" "is_in ''java.lang.Thread.State:'' s"
    "strip (split_on CHR '':'' s ! 1) = ''RUNNABLE''"
    unfolding s_def by (rule state_line_facts [OF i])+
  have "thread_step_result ([], None) h1 = ([], Some \<lparr>name = ''main'', state = None, stack = []\<rparr>)"
    by (simp add: step_header [OF h(1)] h(3) flush_def)
  moreover have "thread_step_result ([], Some \<lparr>name = ''main'', state = None, stack = []\<rparr>) s =
      ([], Some \<lparr>name = ''main'', state = Some ''RUNNABLE'', stack = []\<rparr>)"
    using sf(3) by (simp add: step_state [OF sf(1,2)])
  moreover have "thread_step_result ([], Some \<lparr>name = ''main'', state = Some ''RUNNABLE'', stack = []\<rparr>) a1 =
      ([], Some \<lparr>name = ''main'', state = Some ''RUNNABLE'', stack = [strip a1]\<rparr>)"
    by (simp add: step_frame [OF frame_not_header [OF a1(1)] a1(2) a1(1)])
  moreover have "thread_step_result ([], Some \<lparr>name = ''main'', state = Some ''RUNNABLE'', stack = [strip a1]\<rparr>) a2 =
      ([], Some t)"
    by (simp add: step_frame [OF frame_not_header [OF a2(1)] a2(2) a2(1)] t_def)
  moreover have "thread_step_result ([], Some t) h2 = ([t], c2)"
    by (simp add: step_header [OF h(2)] flush_def c2_def)
  ultimately have "foldl thread_step_result ([], None) [h1, s, a1, a2, h2] = ([t], c2)"
    by simp
  then have "parse_thread_lines ([h1, s, a1, a2, h2] @ post) =
     Inr (flush (fst (foldl thread_step_result ([t], c2) post))
                (snd (foldl thread_step_result ([t], c2) post)))"
    unfolding parse_thread_lines_eq foldl_append by (simp only:)
  moreover from flush_after_loop [of t "[]" c2 post] obtain more where
    "flush (fst (foldl thread_step_result ([t], c2) post))
           (snd (foldl thread_step_result ([t], c2) post)) = t # more"
    by (elim exE)
  ultimately have "parse_thread_lines ([h1, s, a1, a2, h2] @ post) = Inr (t # more)"
    by simp
  then show ?thesis
    unfolding h1_def h2_def s_def t_def by (rule exI)
qed

text \<open>
  Claim C4, amended.  Take a thread dump whose lines begin with a \<open>"main"\<close> header line,
  an indented \<open>java.lang.Thread.State: RUNNABLE\<close> line, two lines whose trimmed form
  starts with \<open>at \<close> and that do not contain the thread-state marker
  \<open>java.lang.Thread.State:\<close>, and a \<open>"main2"\<close> header line.
  The first parsed record has the name \<open>main\<close>, the state \<open>RUNNABLE\<close> and a stack of
  exactly the two trimmed \<open>at\<close> lines, in input order.  In general a line that starts
  with a quote character flushes the record in progress (the records of the lines before it
  are those the parser returns for these lines alone) and begins a record whose name is the
  text between the first pair of quote characters.
\<close>

theorem thread_dump_example_and_headers:
  "(\<forall>t1 t2 indent a1 a2 post.
      split_on NL output =
        [DQ # ''main'' @ DQ # t1, indent @ ''java.lang.Thread.State: RUNNABLE'', a1, a2,
         DQ # ''main2'' @ DQ # t2] @ post \<and>
      (\<forall>c \<in> set indent. is_space c) \<and>
      startswith ''at '' (strip a1) \<and> \<not> is_in ''java.lang.Thread.State:'' a1 \<and>
      startswith ''at '' (strip a2) \<and> \<not> is_in ''java.lang.Thread.State:'' a2 \<longrightarrow>
      (\<exists>more. parse_thread_dump output =
         Inr (\<lparr>name = ''main'', state = Some ''RUNNABLE'', stack = [strip a1, strip a2]\<rparr> # more))) \<and>
   (\<forall>pre nm t post.
      split_on NL output = pre @ (DQ # nm @ DQ # t) # post \<and> DQ \<notin> set nm \<longrightarrow>
      (\<exists>ths r more. parse_thread_lines pre = Inr ths \<and> name r = nm \<and>
         parse_thread_dump output = Inr (ths @ r # more)))"
proof (intro conjI allI impI)
  fix t1 t2 indent a1 a2 post
  assume a: "split_on NL output =
        [DQ # ''main'' @ DQ # t1, indent @ ''java.lang.Thread.State: RUNNABLE'', a1, a2,
         DQ # ''main2'' @ DQ # t2] @ post \<and>
      (\<forall>c \<in> set indent. is_space c) \<and>
      startswith ''at '' (strip a1) \<and> \<not> is_in ''java.lang.Thread.State:'' a1 \<and>
      startswith ''at '' (strip a2) \<and> \<not> is_in ''java.lang.Thread.State:'' a2"
  then have l: "split_on NL output =
        [DQ # ''main'' @ DQ # t1, indent @ ''java.lang.Thread.State: RUNNABLE'', a1, a2,
         DQ # ''main2'' @ DQ # t2] @ post"
    and i: "\<forall>c \<in> set indent. is_space c"
    and f: "startswith ''at '' (strip a1)" "\<not> is_in ''java.lang.Thread.State:'' a1"
      "startswith ''at '' (strip a2)" "\<not> is_in ''java.lang.Thread.State:'' a2"
    by simp_all
  from example_shape [OF i f, of t1 t2 post]
  show "\<exists>more. parse_thread_dump output =
         Inr (\<lparr>name = ''main'', state = Some ''RUNNABLE'', stack = [strip a1, strip a2]\<rparr> # more)"
    unfolding parse_thread_dump_def l .
next
  fix pre nm t post
  assume a: "split_on NL output = pre @ (DQ # nm @ DQ # t) # post \<and> DQ \<notin> set nm"
  then have h: "is_header (DQ # nm @ DQ # t)" and q: "quoted_name (DQ # nm @ DQ # t) = nm"
    by (simp_all add: is_header_def startswith_def quoted_name_def takeWhile_append)
  from header_record [OF h, of pre post] a q
  show "\<exists>ths r more. parse_thread_lines pre = Inr ths \<and> name r = nm \<and>
         parse_thread_dump output = Inr (ths @ r # more)"
    by (simp add: parse_thread_dump_def)
qed

lemma example_dump_lines:
  "split_on NL example_dump =
     [DQ # ''main'' @ DQ # '' #1 prio=5 os_prio=0'', ''   '' @ ''java.lang.Thread.State: RUNNABLE'',
      TAB # ''at a.b.c(A.java:1)'', TAB # ''at d.e.f(B.java:2)'',
      DQ # ''main2'' @ DQ # '' #2 daemon''] @ []"
  by (simp add: example_dump_def)

lemma example_dump_frames:
  "strip (TAB # ''at a.b.c(A.java:1)'') = ''at a.b.c(A.java:1)''"
  "strip (TAB # ''at d.e.f(B.java:2)'') = ''at d.e.f(B.java:2)''"
  "\<not> is_in ''java.lang.Thread.State:'' (TAB # ''at a.b.c(A.java:1)'')"
  "\<not> is_in ''java.lang.Thread.State:'' (TAB # ''at d.e.f(B.java:2)'')"
  by (simp_all add: strip_def is_space_def whitespace_def startswith_def)

lemma example_dump_result:
  "parse_thread_dump example_dump =
     Inr [\<lparr>name = ''main'', state = Some ''RUNNABLE'',
            stack = [''at a.b.c(A.java:1)'', ''at d.e.f(B.java:2)'']\<rparr>,
          \<lparr>name = ''main2'', state = None, stack = []\<rparr>]"
proof -
  have h: "is_header (DQ # ''main'' @ DQ # '' #1 prio=5 os_prio=0'')"
    "is_header (DQ # ''main2'' @ DQ # '' #2 daemon'')"
    "quoted_name (DQ # ''main'' @ DQ # '' #1 prio=5 os_prio=0'') = ''main''"
    "quoted_name (DQ # ''main2'' @ DQ # '' #2 daemon'') = ''main2''"
    by (simp_all add: is_header_def startswith_def quoted_name_def)
  have i: "\<forall>c \<in> set ''   ''. is_space c"
    by (simp add: is_space_def whitespace_def)
  note s = state_line_facts [OF i]
  have f: "startswith ''at '' ''at a.b.c(A.java:1)''" "startswith ''at '' ''at d.e.f(B.java:2)''"
    by (simp_all add: startswith_def)
  have n: "\<not> is_header (TAB # ''at a.b.c(A.java:1)'')" "\<not> is_header (TAB # ''at d.e.f(B.java:2)'')"
    by (simp_all add: is_header_def startswith_def)
  show ?thesis
    unfolding parse_thread_dump_def example_dump_lines parse_thread_lines_eq
    using s(3)
    by (simp add: step_header [OF h(1)] step_header [OF h(2)] h(3,4) step_state [OF s(1,2)]
        step_frame [OF n(1) example_dump_frames(3)] step_frame [OF n(2) example_dump_frames(4)]
        example_dump_frames(1,2) f flush_def
        del: append.simps)
qed

theorem thread_dump_example_and_headers_witness:
  "split_on NL example_dump =
     [DQ # ''main'' @ DQ # '' #1 prio=5 os_prio=0'', ''   '' @ ''java.lang.Thread.State: RUNNABLE'',
      TAB # ''at a.b.c(A.java:1)'', TAB # ''at d.e.f(B.java:2)'',
      DQ # ''main2'' @ DQ # '' #2 daemon''] @ [] \<and>
   list_all is_space ''   '' \<and>
   startswith ''at '' (strip (TAB # ''at a.b.c(A.java:1)'')) \<and>
   startswith ''at '' (strip (TAB # ''at d.e.f(B.java:2)'')) \<and>
   DQ \<notin> set ''main'' \<and>
   parse_thread_dump example_dump =
     Inr [\<lparr>name = ''main'', state = Some ''RUNNABLE'',
            stack = [''at a.b.c(A.java:1)'', ''at d.e.f(B.java:2)'']\<rparr>,
          \<lparr>name = ''main2'', state = None, stack = []\<rparr>]"
proof -
  have i: "\<forall>c \<in> set ''   ''. is_space c"
    by (simp add: is_space_def whitespace_def)
  have f: "startswith ''at '' (strip (TAB # ''at a.b.c(A.java:1)''))"
    "startswith ''at '' (strip (TAB # ''at d.e.f(B.java:2)''))"
    by (simp_all add: example_dump_frames(1,2) startswith_def)
  have q: "DQ \<notin> set ''main''"
    by simp
  from thread_dump_example_and_headers [of example_dump] example_dump_lines i f example_dump_frames(3,4)
  obtain more where "parse_thread_dump example_dump =
      Inr (\<lparr>name = ''main'', state = Some ''RUNNABLE'',
             stack = [strip (TAB # ''at a.b.c(A.java:1)''), strip (TAB # ''at d.e.f(B.java:2)'')]\<rparr> # more)"
    by blast
  then have "parse_thread_dump example_dump =
      Inr (\<lparr>name = ''main'', state = Some ''RUNNABLE'',
             stack = [''at a.b.c(A.java:1)'', ''at d.e.f(B.java:2)'']\<rparr> # more)"
    by (simp only: example_dump_frames(1,2))
  moreover from this have "more = [\<lparr>name = ''main2'', state = None, stack = []\<rparr>]"
    by (simp add: example_dump_result)
  ultimately have "parse_thread_dump example_dump =
     Inr [\<lparr>name = ''main'', state = Some ''RUNNABLE'',
            stack = [''at a.b.c(A.java:1)'', ''at d.e.f(B.java:2)'']\<rparr>,
          \<lparr>name = ''main2'', state = None, stack = []\<rparr>]"
    by (simp only:)
  moreover from i have "list_all is_space ''   ''"
    by (simp only: list_all_iff)
  ultimately show ?thesis
    by (intro conjI example_dump_lines f q)
qed

lemma marker_frame_dump_lines:
  "split_on NL marker_frame_dump =
     [DQ # ''main'' @ DQ # '' #1 prio=5 os_prio=0'', ''   '' @ ''java.lang.Thread.State: RUNNABLE'',
      TAB # ''at a.b.c(A.java:1) // java.lang.Thread.State: BLOCKED'', TAB # ''at d.e.f(B.java:2)'',
      DQ # ''main2'' @ DQ # '' #2 daemon''] @ []"
  by (simp add: marker_frame_dump_def)

lemma marker_frame_facts:
  "strip (TAB # ''at a.b.c(A.java:1) // java.lang.Thread.State: BLOCKED'') =
     ''at a.b.c(A.java:1) // java.lang.Thread.State: BLOCKED''"
  "\<not> is_header (TAB # ''at a.b.c(A.java:1) // java.lang.Thread.State: BLOCKED'')"
  "strip (split_on CHR '':'' (TAB # ''at a.b.c(A.java:1) // java.lang.Thread.State: BLOCKED'') ! 1) =
     ''1) // java.lang.Thread.State''"
  by (simp_all add: strip_def is_space_def whitespace_def is_header_def startswith_def)

lemma marker_frame_is_in:
  "is_in ''java.lang.Thread.State:'' (TAB # ''at a.b.c(A.java:1) // java.lang.Thread.State: BLOCKED'')"
proof -
  have "is_in ''java.lang.Thread.State:''
          ((TAB # ''at a.b.c(A.java:1) // '') @ ''java.lang.Thread.State:'' @ '' BLOCKED'')"
    by (rule is_in_append)
  then show ?thesis by simp
qed

lemma marker_frame_dump_result:
  "parse_thread_dump marker_frame_dump =
     Inr [\<lparr>name = ''main'', state = Some ''1) // java.lang.Thread.State'',
            stack = [''at d.e.f(B.java:2)'']\<rparr>,
          \<lparr>name = ''main2'', state = None, stack = []\<rparr>]"
proof -
  have h: "is_header (DQ # ''main'' @ DQ # '' #1 prio=5 os_prio=0'')"
    "is_header (DQ # ''main2'' @ DQ # '' #2 daemon'')"
    "quoted_name (DQ # ''main'' @ DQ # '' #1 prio=5 os_prio=0'') = ''main''"
    "quoted_name (DQ # ''main2'' @ DQ # '' #2 daemon'') = ''main2''"
    by (simp_all add: is_header_def startswith_def quoted_name_def)
  have i: "\<forall>c \<in> set ''   ''. is_space c"
    by (simp add: is_space_def whitespace_def)
  note s = state_line_facts [OF i]
  have f: "startswith ''at '' ''at d.e.f(B.java:2)''"
    by (simp add: startswith_def)
  have n: "\<not> is_header (TAB # ''at d.e.f(B.java:2)'')"
    by (simp add: is_header_def startswith_def)
  show ?thesis
    unfolding parse_thread_dump_def marker_frame_dump_lines parse_thread_lines_eq
    using s(3) marker_frame_facts(3)
    by (simp add: step_header [OF h(1)] step_header [OF h(2)] h(3,4) step_state [OF s(1,2)]
        step_state [OF marker_frame_facts(2) marker_frame_is_in]
        step_frame [OF n example_dump_frames(4)]
        example_dump_frames(2) f flush_def
        del: append.simps)
qed

text \<open>
  The claim as stated takes any two lines whose trimmed form starts with \<open>at \<close>.  The
  parser tests a line for the thread-state marker before it tests it for \<open>at \<close>: a frame
  line that contains the marker sets the state of the record, to the text between the first
  and the second colon of the line, and is not added to the stack.  In the dump below the
  first record has the state \<open>1) // java.lang.Thread.State\<close> and a stack of one frame.
\<close>

theorem thread_dump_marker_in_frame_counterexample:
  "split_on NL marker_frame_dump =
     [DQ # ''main'' @ DQ # '' #1 prio=5 os_prio=0'', ''   '' @ ''java.lang.Thread.State: RUNNABLE'',
      TAB # ''at a.b.c(A.java:1) // java.lang.Thread.State: BLOCKED'', TAB # ''at d.e.f(B.java:2)'',
      DQ # ''main2'' @ DQ # '' #2 daemon''] @ [] \<and>
   startswith ''at '' (strip (TAB # ''at a.b.c(A.java:1) // java.lang.Thread.State: BLOCKED'')) \<and>
   startswith ''at '' (strip (TAB # ''at d.e.f(B.java:2)'')) \<and>
   parse_thread_dump marker_frame_dump =
     Inr [\<lparr>name = ''main'', state = Some ''1) // java.lang.Thread.State'',
            stack = [''at d.e.f(B.java:2)'']\<rparr>,
          \<lparr>name = ''main2'', state = None, stack = []\<rparr>] \<and>
   \<not> (\<exists>more. parse_thread_dump marker_frame_dump =
          Inr (\<lparr>name = ''main'', state = Some ''RUNNABLE'',
                 stack = [strip (TAB # ''at a.b.c(A.java:1) // java.lang.Thread.State: BLOCKED''),
                          strip (TAB # ''at d.e.f(B.java:2)'')]\<rparr> # more))"
proof -
  have a: "startswith ''at '' (strip (TAB # ''at a.b.c(A.java:1) // java.lang.Thread.State: BLOCKED''))"
    "startswith ''at '' (strip (TAB # ''at d.e.f(B.java:2)''))"
    by (simp_all add: marker_frame_facts(1) example_dump_frames(2) startswith_def)
  have n: "\<not> (\<exists>more. parse_thread_dump marker_frame_dump =
          Inr (\<lparr>name = ''main'', state = Some ''RUNNABLE'',
                 stack = [strip (TAB # ''at a.b.c(A.java:1) // java.lang.Thread.State: BLOCKED''),
                          strip (TAB # ''at d.e.f(B.java:2)'')]\<rparr> # more))"
    unfolding marker_frame_dump_result by simp
  show ?thesis
    by (intro conjI marker_frame_dump_lines a marker_frame_dump_result n)
qed

section \<open>C10: the thread-dump parser never fails\<close>

text \<open>
  Claim C10.  The thread-dump parser returns a list of records on every input: neither
  index expression can fail.  Lines that come before the first header line (a line starting
  with a quote character), thread-state lines and \<open>at\<close> lines included, are ignored.  A
  header line with no closing quote still yields a record, whose name is the text after the
  first quote (possibly empty).
\<close>

theorem thread_dump_parsing_total:
  "(\<exists>threads. parse_thread_dump output = Inr threads) \<and>
   (\<forall>pre rest.
      split_on NL output = pre @ rest \<and> (\<forall>l \<in> set pre. \<not> is_header l) \<longrightarrow>
      parse_thread_dump output = parse_thread_lines rest) \<and>
   (\<forall>pre nm post.
      split_on NL output = pre @ (DQ # nm) # post \<and> DQ \<notin> set nm \<longrightarrow>
      (\<exists>ths r more. parse_thread_lines pre = Inr ths \<and> name r = nm \<and>
         parse_thread_dump output = Inr (ths @ r # more)))"
proof (intro conjI allI impI)
  show "\<exists>threads. parse_thread_dump output = Inr threads"
    by (simp add: parse_thread_dump_def parse_thread_lines_eq)
next
  fix pre rest
  assume "split_on NL output = pre @ rest \<and> (\<forall>l \<in> set pre. \<not> is_header l)"
  then show "parse_thread_dump output = parse_thread_lines rest"
    by (simp add: parse_thread_dump_def parse_thread_lines_drop_pre)
next
  fix pre nm post
  assume a: "split_on NL output = pre @ (DQ # nm) # post \<and> DQ \<notin> set nm"
  then have h: "is_header (DQ # nm)" and q: "quoted_name (DQ # nm) = nm"
    by (auto simp: is_header_def startswith_def quoted_name_def)
  from header_record [OF h, of pre post] a q
  show "\<exists>ths r more. parse_thread_lines pre = Inr ths \<and> name r = nm \<and>
         parse_thread_dump output = Inr (ths @ r # more)"
    by (simp add: parse_thread_dump_def)
qed

lemma orphan_dump_lines:
  "split_on NL orphan_dump =
     [''   java.lang.Thread.State: BLOCKED'', TAB # ''at x.y(Z.java:3)''] @ (DQ # ''worker'') # []"
  by (simp add: orphan_dump_def)

lemma orphan_dump_not_headers:
  "\<not> is_header ''   java.lang.Thread.State: BLOCKED''" "\<not> is_header (TAB # ''at x.y(Z.java:3)'')"
  by (simp_all add: is_header_def startswith_def)

lemma orphan_dump_header: "parse_thread_lines [DQ # ''worker''] = Inr [\<lparr>name = ''worker'', state = None, stack = []\<rparr>]"
  by (simp add: parse_thread_lines_eq thread_step_result_def is_header_def startswith_def
      quoted_name_def flush_def)

theorem thread_dump_parsing_total_witness:
  "split_on NL orphan_dump =
     [''   java.lang.Thread.State: BLOCKED'', TAB # ''at x.y(Z.java:3)''] @ (DQ # ''worker'') # [] \<and>
   \<not> is_header ''   java.lang.Thread.State: BLOCKED'' \<and> \<not> is_header (TAB # ''at x.y(Z.java:3)'') \<and>
   DQ \<notin> set ''worker'' \<and>
   parse_thread_lines [''   java.lang.Thread.State: BLOCKED'', TAB # ''at x.y(Z.java:3)''] = Inr [] \<and>
   parse_thread_dump orphan_dump = Inr [\<lparr>name = ''worker'', state = None, stack = []\<rparr>]"
proof -
  have p: "\<forall>l \<in> set [''   java.lang.Thread.State: BLOCKED'', TAB # ''at x.y(Z.java:3)'']. \<not> is_header l"
    by (simp add: orphan_dump_not_headers)
  have q: "DQ \<notin> set ''worker''"
    by simp
  note t = thread_dump_parsing_total [of orphan_dump]
  from t orphan_dump_lines p
  have "parse_thread_dump orphan_dump = parse_thread_lines [DQ # ''worker'']"
    by blast
  then have r: "parse_thread_dump orphan_dump = Inr [\<lparr>name = ''worker'', state = None, stack = []\<rparr>]"
    by (simp only: orphan_dump_header)
  from t orphan_dump_lines q obtain ths r' more where
    e: "parse_thread_lines [''   java.lang.Thread.State: BLOCKED'', TAB # ''at x.y(Z.java:3)''] = Inr ths"
       "parse_thread_dump orphan_dump = Inr (ths @ r' # more)"
    by blast
  from e(2) r have "ths = []"
    by (cases ths) simp_all
  with e(1) have "parse_thread_lines [''   java.lang.Thread.State: BLOCKED'', TAB # ''at x.y(Z.java:3)''] = Inr []"
    by simp
  then show ?thesis
    by (intro conjI orphan_dump_lines orphan_dump_not_headers q r)
qed

section \<open>C5: parsing the system properties\<close>

lemma properties_loop_eq:
  "properties_loop acc lines =
     (foldl (\<lambda>d kv. AList.update (fst kv) (snd kv) d) acc (property_lines lines), None)"
  by (induction lines arbitrary: acc)
     (simp_all add: property_lines_def property_of_line_def split_max1_def unpack2_def)

text \<open>
  Claim C5.  When the properties command exits with code 0, every line of its output that
  contains \<open>=\<close> is split at the first \<open>=\<close> into a key and a value, both trimmed, and
  inserted into the result; no exception arises in the loop.  Looking a key up in the result
  gives the value of the last line with that key: later duplicates overwrite earlier ones.
  The lines \<open>a.b=1\<close> and \<open>c=x=y\<close> give the mapping of \<open>a.b\<close> to \<open>1\<close> and of \<open>c\<close> to
  \<open>x=y\<close>.
\<close>

theorem system_properties_parsing:
  assumes "tools (split_ws (''jcmd '' @ pid @ '' VM.system_properties'')) = Completed 0 stdout"
  shows "\<exists>properties.
           analyze_system_properties tools pid = Inr properties \<and>
           snd (properties_loop [] (split_on NL stdout)) = None \<and>
           map_of properties = map_of (rev (property_lines (split_on NL stdout))) \<and>
           (\<forall>pre line post.
              split_on NL stdout = pre @ line # post \<and> CHR ''='' \<in> set line \<and>
              fst (property_of_line line) \<notin> fst ` set (property_lines post) \<longrightarrow>
              map_of properties (fst (property_of_line line)) = Some (snd (property_of_line line))) \<and>
           (split_on NL stdout = [''a.b=1'', ''c=x=y''] \<longrightarrow>
              properties = [(''a.b'', ''1''), (''c'', ''x=y'')])"
proof -
  let ?lines = "split_on NL stdout"
  let ?props = "fst (properties_loop [] ?lines)"
  have r: "analyze_system_properties tools pid = Inr ?props"
    using assms by (simp add: analyze_system_properties_def subprocess_run_def)
  have m: "map_of ?props = map_of (rev (property_lines ?lines))"
    by (simp add: properties_loop_eq map_of_foldl_update)
  have l: "map_of ?props (fst (property_of_line line)) = Some (snd (property_of_line line))"
    if "?lines = pre @ line # post \<and> CHR ''='' \<in> set line \<and>
        fst (property_of_line line) \<notin> fst ` set (property_lines post)" for pre line post
  proof -
    have "property_lines ?lines =
            property_lines pre @ (fst (property_of_line line), snd (property_of_line line)) # property_lines post"
      using that by (simp add: property_lines_def)
    from map_of_rev_last [OF this] that m show ?thesis
      by simp
  qed
  have n: "snd (properties_loop [] ?lines) = None"
    by (simp add: properties_loop_eq)
  have x: "?props = [(''a.b'', ''1''), (''c'', ''x=y'')]" if "?lines = [''a.b=1'', ''c=x=y'']"
    unfolding that
    by (simp add: split_max1_def unpack2_def strip_def is_space_def whitespace_def)
  from r n m l x show ?thesis
    by blast
qed

lemma example_properties_lines: "split_on NL example_properties = [''a.b=1'', ''c=x=y'']"
  by (simp add: example_properties_def)

lemma example_properties_result:
  "analyze_system_properties properties_tools ''7'' = Inr [(''a.b'', ''1''), (''c'', ''x=y'')]"
  by (simp add: analyze_system_properties_def subprocess_run_def properties_tools_def
      example_properties_lines split_max1_def unpack2_def strip_def is_space_def whitespace_def)

theorem system_properties_parsing_witness:
  "properties_tools (split_ws (''jcmd '' @ ''7'' @ '' VM.system_properties'')) = Completed 0 example_properties \<and>
   analyze_system_properties properties_tools ''7'' = Inr [(''a.b'', ''1''), (''c'', ''x=y'')] \<and>
   map_of (rev (property_lines (split_on NL example_properties))) ''c'' = Some ''x=y''"
proof -
  have t: "properties_tools (split_ws (''jcmd '' @ ''7'' @ '' VM.system_properties'')) = Completed 0 example_properties"
    by (simp add: properties_tools_def)
  from system_properties_parsing [of properties_tools "''7''" example_properties, OF t] obtain properties where
    p: "analyze_system_properties properties_tools ''7'' = Inr properties"
       "map_of properties = map_of (rev (property_lines (split_on NL example_properties)))"
    by blast
  from p(1) have "properties = [(''a.b'', ''1''), (''c'', ''x=y'')]"
    by (simp only: example_properties_result sum.inject)
  with p(2) have "map_of (rev (property_lines (split_on NL example_properties))) ''c'' =
                  map_of [(''a.b'', ''1''), (''c'', ''x=y'')] ''c''"
    by (simp only:)
  then have "map_of (rev (property_lines (split_on NL example_properties))) ''c'' = Some ''x=y''"
    by simp
  with t example_properties_result show ?thesis by blast
qed

section \<open>C6: counting scriptlets\<close>

lemma find_close_None_iff: "find_close s = None \<longleftrightarrow> \<not> is_in ''%>'' s"
  by (induction s rule: find_close.induct) (auto simp: startswith_def split: option.splits)

lemma find_close_None_tl: "find_close (a # s) = None \<Longrightarrow> find_close s = None"
  by (cases s) (auto split: if_splits option.splits)

lemma findall_no_close: "find_close s = None \<Longrightarrow> findall_scriptlets s = []"
proof (induction s rule: findall_scriptlets.induct)
  case (1 a b cs)
  from "1.prems" have bc: "find_close (b # cs) = None"
    by (rule find_close_None_tl)
  then have c: "find_close cs = None"
    by (rule find_close_None_tl)
  show ?case
  proof (cases "a = CHR ''<'' \<and> b = CHR ''%''")
    case True
    with c "1.IH"(1) bc show ?thesis by simp
  next
    case False
    with "1.IH"(3) bc show ?thesis by auto
  qed
next
  case (2 a)
  then show ?case by simp
next
  case 3
  then show ?case by simp
qed

lemma findall_no_open: "\<not> is_in ''<%'' s \<Longrightarrow> findall_scriptlets s = []"
proof (induction s rule: findall_scriptlets.induct)
  case (1 a b cs)
  from "1.prems" have n: "\<not> (a = CHR ''<'' \<and> b = CHR ''%'')" and r: "\<not> is_in ''<%'' (b # cs)"
    by (auto simp: startswith_def)
  with "1.IH"(3) show ?case by auto
next
  case (2 a)
  then show ?case by simp
next
  case 3
  then show ?case by simp
qed

lemma findall_skip_pre:
  "\<not> is_in ''<%'' pre \<Longrightarrow>
   findall_scriptlets (pre @ CHR ''<'' # CHR ''%'' # rest) = findall_scriptlets (CHR ''<'' # CHR ''%'' # rest)"
proof (induction pre)
  case Nil
  then show ?case by simp
next
  case (Cons a p)
  show ?case
  proof (cases p)
    case Nil
    then show ?thesis by simp
  next
    case (Cons b p')
    with Cons.prems have n: "\<not> (a = CHR ''<'' \<and> b = CHR ''%'')" and r: "\<not> is_in ''<%'' p"
      by (auto simp: startswith_def)
    from n Cons have "findall_scriptlets ((a # p) @ CHR ''<'' # CHR ''%'' # rest) =
        findall_scriptlets (p @ CHR ''<'' # CHR ''%'' # rest)"
      by auto
    with Cons.IH [OF r] show ?thesis by simp
  qed
qed

lemma find_close_first:
  "find_close (body @ ''%'') = None \<Longrightarrow>
   find_close (body @ CHR ''%'' # CHR ''>'' # post) = Some (body @ ''%>'', post)"
proof (induction body rule: find_close.induct)
  case (1 a b cs)
  from "1.prems" have n: "\<not> (a = CHR ''%'' \<and> b = CHR ''>'')" and r: "find_close ((b # cs) @ ''%'') = None"
    by (auto split: if_splits option.splits)
  from "1.IH" [OF n r] n show ?case by auto
next
  case (2 a)
  then show ?case by simp
next
  case 3
  then show ?case by simp
qed

lemma findall_unterminated:
  assumes "\<not> is_in ''<%'' pre" and "\<not> is_in ''%>'' rest"
  shows "findall_scriptlets (pre @ ''<%'' @ rest) = []"
proof -
  from assms(2) have c: "find_close rest = None"
    by (simp add: find_close_None_iff)
  then have "findall_scriptlets rest = []"
    by (rule findall_no_close)
  then have "findall_scriptlets (CHR ''%'' # rest) = []"
    by (cases rest) simp_all
  with c have "findall_scriptlets (CHR ''<'' # CHR ''%'' # rest) = []"
    by simp
  with findall_skip_pre [OF assms(1), of rest] show ?thesis
    by simp
qed

lemma findall_block:
  assumes "\<not> is_in ''<%'' pre" and "\<not> is_in ''%>'' (body @ ''%'')"
  shows "findall_scriptlets (pre @ ''<%'' @ body @ ''%>'' @ post) =
           (''<%'' @ body @ ''%>'') # findall_scriptlets post"
proof -
  from assms(2) have "find_close (body @ ''%'') = None"
    by (simp add: find_close_None_iff)
  then have "find_close (body @ CHR ''%'' # CHR ''>'' # post) = Some (body @ ''%>'', post)"
    by (rule find_close_first)
  then have "findall_scriptlets (CHR ''<'' # CHR ''%'' # body @ CHR ''%'' # CHR ''>'' # post) =
               (''<%'' @ body @ ''%>'') # findall_scriptlets post"
    by simp
  with findall_skip_pre [OF assms(1), of "body @ CHR ''%'' # CHR ''>'' # post"] show ?thesis
    by simp
qed

lemma example_jsp_matches: "findall_scriptlets example_jsp = [''<% int x=1; %>'', ''<% y++; %>'']"
  by (simp add: example_jsp_def)

text \<open>
  Claim C6.  The scriptlet count of a JSP file is the number of matches that
  \<open>findall_scriptlets\<close> returns for its content.  The content
  \<open><% int x=1; %>text<% y++; %>\<close> has 2 matches.  A content without \<open><%\<close> or without
  \<open>%>\<close> has none, and neither has an opening \<open><%\<close> that no \<open>%>\<close> follows.  When the
  first opening \<open><%\<close> is followed by a body (any characters, newlines included) and the
  first \<open>%>\<close> after the opening ends that body, the first match is exactly the opening,
  the body and that \<open>%>\<close> (it is minimal), and the remaining matches are those of the
  text after it (they do not overlap it).
\<close>

theorem scriptlet_count:
  "length (findall_scriptlets ''<% int x=1; %>text<% y++; %>'') = 2 \<and>
   (\<not> is_in ''<%'' src \<or> \<not> is_in ''%>'' src \<longrightarrow> findall_scriptlets src = []) \<and>
   (\<forall>pre rest.
      src = pre @ ''<%'' @ rest \<and> \<not> is_in ''<%'' pre \<and> \<not> is_in ''%>'' rest \<longrightarrow>
      findall_scriptlets src = []) \<and>
   (\<forall>pre body post.
      src = pre @ ''<%'' @ body @ ''%>'' @ post \<and> \<not> is_in ''<%'' pre \<and>
      \<not> is_in ''%>'' (body @ ''%'') \<longrightarrow>
      findall_scriptlets src = (''<%'' @ body @ ''%>'') # findall_scriptlets post) \<and>
   (\<forall>(files :: string \<Rightarrow> exc + jsp_stat) file_path f.
      files file_path = Inr f \<and> content f = src \<longrightarrow>
      map_option scriptlets (analyze_single_jsp files file_path) =
        Some (length (findall_scriptlets src)))"
proof (intro conjI allI impI)
  show "length (findall_scriptlets ''<% int x=1; %>text<% y++; %>'') = 2"
    using example_jsp_matches by (simp add: example_jsp_def)
next
  assume "\<not> is_in ''<%'' src \<or> \<not> is_in ''%>'' src"
  then show "findall_scriptlets src = []"
    using findall_no_open [of src] findall_no_close [of src] by (auto simp: find_close_None_iff)
next
  fix pre rest
  assume "src = pre @ ''<%'' @ rest \<and> \<not> is_in ''<%'' pre \<and> \<not> is_in ''%>'' rest"
  then show "findall_scriptlets src = []"
    using findall_unterminated [of pre rest] by simp
next
  fix pre body post
  assume "src = pre @ ''<%'' @ body @ ''%>'' @ post \<and> \<not> is_in ''<%'' pre \<and>
      \<not> is_in ''%>'' (body @ ''%'')"
  then show "findall_scriptlets src = (''<%'' @ body @ ''%>'') # findall_scriptlets post"
    using findall_block [of pre body post] by simp
next
  fix files :: "string \<Rightarrow> exc + jsp_stat" and file_path f
  assume "files file_path = Inr f \<and> content f = src"
  then show "map_option scriptlets (analyze_single_jsp files file_path) =
        Some (length (findall_scriptlets src))"
    by (simp add: analyze_single_jsp_def)
qed

lemma unterminated_jsp_split:
  "unterminated_jsp = [] @ ''<%'' @ ('' a'' @ [NL] @ '' '') @ ''%>'' @ ''b<% c''"
  "''b<% c'' = ''b'' @ ''<%'' @ '' c''"
  by (simp_all add: unterminated_jsp_def)

lemma unterminated_jsp_facts:
  "\<not> is_in ''<%'' []" "\<not> is_in ''%>'' (('' a'' @ [NL] @ '' '') @ ''%'')"
  "\<not> is_in ''<%'' ''b''" "\<not> is_in ''%>'' '' c''"
  "\<not> is_in ''<%'' ''no scriptlets here''"
  by (simp_all add: startswith_def)

lemma example_files_stat:
  "example_files ''webapps/index.jsp'' =
     Inr \<lparr>content = example_jsp, getsize = 29, getmtime_iso = ''2024-01-01T00:00:00''\<rparr>"
  by (simp add: example_files_def)

theorem scriptlet_count_witness:
  "\<not> is_in ''%>'' (('' a'' @ [NL] @ '' '') @ ''%'') \<and>
   \<not> is_in ''<%'' ''b'' \<and> \<not> is_in ''%>'' '' c'' \<and>
   \<not> is_in ''<%'' ''no scriptlets here'' \<and>
   findall_scriptlets ''b<% c'' = [] \<and>
   findall_scriptlets unterminated_jsp = [''<% a'' @ [NL] @ '' %>''] \<and>
   findall_scriptlets ''no scriptlets here'' = [] \<and>
   map_option scriptlets (analyze_single_jsp example_files ''webapps/index.jsp'') = Some 2"
proof -
  note f = unterminated_jsp_facts
  from scriptlet_count [of "''b<% c''"] unterminated_jsp_split(2) f(3,4)
  have u: "findall_scriptlets ''b<% c'' = []"
    by blast
  from scriptlet_count [of unterminated_jsp] unterminated_jsp_split(1) f(1,2)
  have "findall_scriptlets unterminated_jsp =
          (''<%'' @ ('' a'' @ [NL] @ '' '') @ ''%>'') # findall_scriptlets ''b<% c''"
    by blast
  with u have b: "findall_scriptlets unterminated_jsp = [''<% a'' @ [NL] @ '' %>'']"
    by simp
  from scriptlet_count [of "''no scriptlets here''"] f(5)
  have n: "findall_scriptlets ''no scriptlets here'' = []"
    by blast
  have "content \<lparr>content = example_jsp, getsize = 29, getmtime_iso = ''2024-01-01T00:00:00''\<rparr> = example_jsp"
    by simp
  with scriptlet_count [of example_jsp] example_files_stat
  have "map_option scriptlets (analyze_single_jsp example_files ''webapps/index.jsp'') =
          Some (length (findall_scriptlets example_jsp))"
    by blast
  moreover have "length (findall_scriptlets example_jsp) = 2"
    by (simp add: example_jsp_matches)
  ultimately have j: "map_option scriptlets (analyze_single_jsp example_files ''webapps/index.jsp'') = Some 2"
    by (simp only:)
  show ?thesis
    by (intro conjI f(2,3,4,5) u b n j)
qed

section \<open>C7 and C8: the report\<close>

lemma get_java_processes_eq: "get_java_processes tools = Inr (processes_of tools)"
  using get_java_processes_returns [of tools] by (auto simp: processes_of_def)

lemma process_info_shape:
  "\<exists>wc th sp. process_info tools pid command =
     Inr (JDict [(''command'', JStr command), (''web_components'', JList wc),
                 (''threads'', JList th), (''system_properties'', JDict sp)])"
proof -
  from analyze_web_components_returns [of tools pid] obtain c where
    c: "analyze_web_components tools pid = Inr c" by (elim exE)
  from analyze_threads_returns [of tools pid] obtain t where
    t: "analyze_threads tools pid = Inr t" by (elim exE)
  from analyze_system_properties_returns [of tools pid] obtain s where
    s: "analyze_system_properties tools pid = Inr s" by (elim exE)
  from c t s show ?thesis
    by (simp add: process_info_def json_of_dict_def)
qed

lemma process_info_eq: "process_info tools pid command = Inr (info_of tools pid command)"
  using process_info_shape [of tools pid command] by (auto simp: info_of_def)

lemma info_of_keys:
  "json_keys (info_of tools pid command) =
     Some [''command'', ''web_components'', ''threads'', ''system_properties''] \<and>
   json_get (info_of tools pid command) ''command'' = Some (JStr command)"
  using process_info_shape [of tools pid command]
  by (auto simp: info_of_def json_keys_def json_get_def)

lemma report_loop_eq:
  "report_loop tools acc ps =
     Inr (foldl (\<lambda>d kv. AList.update (fst kv) (snd kv) d) acc
            (map (\<lambda>p. (fst p, info_of tools (fst p) (snd p))) ps))"
  by (induction ps arbitrary: acc) (auto simp: process_info_eq)

lemma distinct_jps_line: "distinct (map fst acc) \<Longrightarrow> distinct (map fst (jps_line acc line))"
  by (simp add: jps_line_def Let_def distinct_update)

lemma distinct_foldl_jps_line:
  "distinct (map fst acc) \<Longrightarrow> distinct (map fst (foldl jps_line acc lines))"
  by (induction lines arbitrary: acc) (simp_all add: distinct_jps_line)

lemma distinct_processes_of: "distinct (map fst (processes_of tools))"
proof (cases "tools [''jps'', ''-v'']")
  case (Completed returncode stdout)
  then show ?thesis
    by (simp add: processes_of_def get_java_processes_def get_java_processes_try_def
        subprocess_run_def distinct_foldl_jps_line)
next
  case (Raises e)
  then show ?thesis
    by (cases e) (simp_all add: processes_of_def get_java_processes_def get_java_processes_try_def
        subprocess_run_def)
qed

lemma report_loop_processes:
  "report_loop tools [] (processes_of tools) =
     Inr (map (\<lambda>p. (fst p, info_of tools (fst p) (snd p))) (processes_of tools))"
proof -
  let ?kvs = "map (\<lambda>p. (fst p, info_of tools (fst p) (snd p))) (processes_of tools)"
  have "map fst ([] @ ?kvs) = map fst (processes_of tools)"
    by (simp add: comp_def)
  with distinct_processes_of [of tools] have "distinct (map fst ([] @ ?kvs))"
    by (simp only:)
  from foldl_update_distinct [OF this] show ?thesis
    by (simp add: report_loop_eq)
qed

lemma generate_report_eq:
  "generate_report w output_file =
     (if output_file \<noteq> None \<and> output_file \<noteq> Some [] then
        (case dump w (the output_file) of Some e \<Rightarrow> Inl e | None \<Rightarrow> Inr (report_of w))
      else Inr (report_of w))"
  by (simp add: generate_report_def get_java_processes_eq report_loop_processes report_of_def
      split: option.splits)

lemma map_of_info:
  assumes "distinct (map fst ps)" and "(k, v) \<in> set ps"
  shows "map_of (map (\<lambda>p. (fst p, g (fst p) (snd p))) ps) k = Some (g k v)"
proof -
  have "map fst (map (\<lambda>p. (fst p, g (fst p) (snd p))) ps) = map fst ps"
    by (simp add: comp_def)
  with assms(1) have d: "distinct (map fst (map (\<lambda>p. (fst p, g (fst p) (snd p))) ps))"
    by (simp only:)
  from assms(2) have "(k, g k v) \<in> set (map (\<lambda>p. (fst p, g (fst p) (snd p))) ps)"
    by force
  with d show ?thesis
    by (simp only: map_of_eq_Some_iff)
qed

lemma report_of_shape:
  "json_keys (report_of w) = Some [''timestamp'', ''processes'', ''warnings''] \<and>
   json_get (report_of w) ''processes'' =
     Some (JDict (map (\<lambda>p. (fst p, info_of (run w) (fst p) (snd p))) (processes_of (run w)))) \<and>
   json_get (report_of w) ''warnings'' = Some (JList [])"
  by (simp add: report_of_def json_keys_def json_get_def)

text \<open>
  Claim C7, amended.  When no output path is supplied (it is \<open>None\<close> or the empty string)
  or the report is written without error, \<open>generate_report\<close> returns the in-memory report,
  the same one with and without an output path.  The report has exactly the top-level keys
  \<open>timestamp\<close>, \<open>processes\<close> and \<open>warnings\<close>; the keys of \<open>processes\<close> are the
  process ids that \<open>get_java_processes\<close> returned, and each is mapped to a record with
  exactly the keys \<open>command\<close>, \<open>web_components\<close>, \<open>threads\<close> and
  \<open>system_properties\<close>, whose \<open>command\<close> is the command of that process.  When writing
  the report raises, the exception propagates and no report is returned.
\<close>

theorem generate_report_shape:
  "(output_file = None \<or> output_file = Some [] \<or> dump w (the output_file) = None \<longrightarrow>
      (\<exists>report processes java_processes.
         generate_report w output_file = Inr report \<and>
         generate_report w None = Inr report \<and>
         json_keys report = Some [''timestamp'', ''processes'', ''warnings''] \<and>
         json_get report ''processes'' = Some (JDict processes) \<and>
         get_java_processes (run w) = Inr java_processes \<and>
         map fst processes = map fst java_processes \<and>
         (\<forall>pid command. (pid, command) \<in> set java_processes \<longrightarrow>
            (\<exists>info. map_of processes pid = Some info \<and>
               json_get info ''command'' = Some (JStr command) \<and>
               json_keys info =
                 Some [''command'', ''web_components'', ''threads'', ''system_properties''])))) \<and>
   (\<forall>f e. output_file = Some f \<and> f \<noteq> [] \<and> dump w f = Some e \<longrightarrow>
      generate_report w output_file = Inl e)"
proof (intro conjI allI impI)
  let ?procs = "map (\<lambda>p. (fst p, info_of (run w) (fst p) (snd p))) (processes_of (run w))"
  assume a: "output_file = None \<or> output_file = Some [] \<or> dump w (the output_file) = None"
  then have r: "generate_report w output_file = Inr (report_of w)"
    by (auto simp: generate_report_eq)
  have n: "generate_report w None = Inr (report_of w)"
    by (simp add: generate_report_eq)
  have k: "map fst ?procs = map fst (processes_of (run w))"
    by (simp add: comp_def)
  have i: "\<exists>info. map_of ?procs pid = Some info \<and>
               json_get info ''command'' = Some (JStr command) \<and>
               json_keys info =
                 Some [''command'', ''web_components'', ''threads'', ''system_properties'']"
    if "(pid, command) \<in> set (processes_of (run w))" for pid command
    using map_of_info [OF distinct_processes_of that, of "info_of (run w)"]
      info_of_keys [of "run w" pid command]
    by simp
  have "generate_report w output_file = Inr (report_of w) \<and>
         generate_report w None = Inr (report_of w) \<and>
         json_keys (report_of w) = Some [''timestamp'', ''processes'', ''warnings''] \<and>
         json_get (report_of w) ''processes'' = Some (JDict ?procs) \<and>
         get_java_processes (run w) = Inr (processes_of (run w)) \<and>
         map fst ?procs = map fst (processes_of (run w)) \<and>
         (\<forall>pid command. (pid, command) \<in> set (processes_of (run w)) \<longrightarrow>
            (\<exists>info. map_of ?procs pid = Some info \<and>
               json_get info ''command'' = Some (JStr command) \<and>
               json_keys info =
                 Some [''command'', ''web_components'', ''threads'', ''system_properties'']))"
    using r n report_of_shape [of w] get_java_processes_eq [of "run w"] k i
    by (intro conjI allI impI) simp_all
  then show "\<exists>report processes java_processes.
         generate_report w output_file = Inr report \<and>
         generate_report w None = Inr report \<and>
         json_keys report = Some [''timestamp'', ''processes'', ''warnings''] \<and>
         json_get report ''processes'' = Some (JDict processes) \<and>
         get_java_processes (run w) = Inr java_processes \<and>
         map fst processes = map fst java_processes \<and>
         (\<forall>pid command. (pid, command) \<in> set java_processes \<longrightarrow>
            (\<exists>info. map_of processes pid = Some info \<and>
               json_get info ''command'' = Some (JStr command) \<and>
               json_keys info =
                 Some [''command'', ''web_components'', ''threads'', ''system_properties'']))"
    by (intro exI)
next
  fix f e
  assume "output_file = Some f \<and> f \<noteq> [] \<and> dump w f = Some e"
  then show "generate_report w output_file = Inl e"
    by (simp add: generate_report_eq)
qed

lemma argv_4711:
  "split_ws (''jcmd '' @ ''4711'' @ '' VM.classloaders'') = [''jcmd'', ''4711'', ''VM.classloaders'']"
  "split_ws (''jstack '' @ ''4711'') = [''jstack'', ''4711'']"
  "split_ws (''jcmd '' @ ''4711'' @ '' VM.system_properties'') = [''jcmd'', ''4711'', ''VM.system_properties'']"
  by (simp_all add: is_space_def whitespace_def)

lemma example_run_processes: "get_java_processes example_run = Inr [(''4711'', ''Bootstrap start'')]"
proof -
  have s: "split_on NL (strip (''4711 Bootstrap start'' @ [NL])) = [''4711 Bootstrap start'']"
    by (simp add: strip_def is_space_def whitespace_def)
  have t: "split_ws ''4711 Bootstrap start'' = [''4711'', ''Bootstrap'', ''start'']"
    by (simp add: is_space_def whitespace_def)
  have "foldl jps_line [] [''4711 Bootstrap start''] = [(''4711'', ''Bootstrap start'')]"
    by (simp add: jps_line_def t del: split_ws.simps)
  with s show ?thesis
    by (simp add: get_java_processes_def get_java_processes_try_def subprocess_run_def
        example_run_def del: foldl.simps)
qed

lemma example_run_info:
  "process_info example_run ''4711'' ''Bootstrap start'' =
     Inr (JDict [(''command'', JStr ''Bootstrap start''), (''web_components'', JList []),
                 (''threads'', JList []), (''system_properties'', JDict [(''a.b'', JStr ''1'')])])"
proof -
  have w: "analyze_web_components example_run ''4711'' = Inr []"
    by (simp only: analyze_web_components_def argv_4711) (simp add: subprocess_run_def example_run_def)
  have t: "analyze_threads example_run ''4711'' = Inr []"
    by (simp only: analyze_threads_def argv_4711) (simp add: subprocess_run_def example_run_def)
  have p: "analyze_system_properties example_run ''4711'' = Inr [(''a.b'', ''1'')]"
    by (simp only: analyze_system_properties_def argv_4711)
       (simp add: subprocess_run_def example_run_def split_max1_def unpack2_def strip_def
          is_space_def whitespace_def)
  from w t p show ?thesis
    by (simp add: process_info_def json_of_dict_def)
qed

lemma example_report_none: "generate_report example_world None = Inr example_report"
  by (simp add: generate_report_def example_world_def example_run_processes example_run_info
      example_report_def)

theorem generate_report_shape_witness:
  "dump example_world (the (Some ''java_analysis_report.json'')) = None \<and>
   generate_report example_world (Some ''java_analysis_report.json'') = Inr example_report \<and>
   json_keys example_report = Some [''timestamp'', ''processes'', ''warnings''] \<and>
   dump readonly_world ''java_analysis_report.json'' = Some (OtherException ''PermissionError'') \<and>
   generate_report readonly_world (Some ''java_analysis_report.json'') =
     Inl (OtherException ''PermissionError'')"
proof -
  have d: "dump example_world (the (Some ''java_analysis_report.json'')) = None"
    by (simp add: example_world_def)
  have e: "dump readonly_world ''java_analysis_report.json'' = Some (OtherException ''PermissionError'')"
    by (simp add: readonly_world_def)
  from generate_report_shape [of "Some ''java_analysis_report.json''" example_world] d
  obtain report where
    r: "generate_report example_world (Some ''java_analysis_report.json'') = Inr report"
       "generate_report example_world None = Inr report"
       "json_keys report = Some [''timestamp'', ''processes'', ''warnings'']"
    by blast
  from r(2) have "report = example_report"
    by (simp add: example_report_none)
  with r(1,3) have x: "generate_report example_world (Some ''java_analysis_report.json'') = Inr example_report"
    "json_keys example_report = Some [''timestamp'', ''processes'', ''warnings'']"
    by simp_all
  from generate_report_shape [of "Some ''java_analysis_report.json''" readonly_world] e
  have y: "generate_report readonly_world (Some ''java_analysis_report.json'') =
     Inl (OtherException ''PermissionError'')"
    by simp
  show ?thesis
    by (intro conjI d x e y)
qed

text \<open>
  The claim as stated says that the report is always returned.  The write is not guarded:
  in a world where writing the file raises, \<open>generate_report\<close> with an output path raises
  too, and returns no report.
\<close>

theorem generate_report_write_failure_counterexample:
  "generate_report readonly_world (Some ''java_analysis_report.json'') =
     Inl (OtherException ''PermissionError'') \<and>
   \<not> (\<exists>report. generate_report readonly_world (Some ''java_analysis_report.json'') = Inr report)"
proof -
  have "generate_report readonly_world (Some ''java_analysis_report.json'') =
     Inl (OtherException ''PermissionError'')"
    by (simp add: generate_report_eq readonly_world_def)
  then show ?thesis
    by simp
qed

text \<open>
  Claim C8.  Whatever the tools answer, a report that \<open>generate_report\<close> returns has the
  empty list under \<open>warnings\<close>.  Without an output path a report is always returned; the
  only way not to return one is that writing it to the output path raised.
\<close>

theorem warnings_always_empty:
  "(\<forall>report. generate_report w output_file = Inr report \<longrightarrow>
      json_get report ''warnings'' = Some (JList [])) \<and>
   (\<exists>report. generate_report w None = Inr report \<and> json_get report ''warnings'' = Some (JList [])) \<and>
   (\<forall>e. generate_report w output_file = Inl e \<longrightarrow>
      output_file \<noteq> None \<and> output_file \<noteq> Some [] \<and> dump w (the output_file) = Some e)"
proof (intro conjI allI impI)
  fix report
  assume "generate_report w output_file = Inr report"
  then have "report = report_of w"
    by (simp add: generate_report_eq split: if_splits option.splits)
  then show "json_get report ''warnings'' = Some (JList [])"
    by (simp add: report_of_shape)
next
  have "generate_report w None = Inr (report_of w)"
    by (simp add: generate_report_eq)
  then show "\<exists>report. generate_report w None = Inr report \<and> json_get report ''warnings'' = Some (JList [])"
    by (simp add: report_of_shape)
next
  fix e
  assume a: "generate_report w output_file = Inl e"
  then show "output_file \<noteq> None" "output_file \<noteq> Some []" "dump w (the output_file) = Some e"
    by (simp_all add: generate_report_eq split: if_splits option.splits)
qed

theorem warnings_always_empty_witness:
  "generate_report example_world None = Inr example_report \<and>
   json_get example_report ''warnings'' = Some (JList []) \<and>
   generate_report readonly_world (Some ''java_analysis_report.json'') =
     Inl (OtherException ''PermissionError'') \<and>
   dump readonly_world (the (Some ''java_analysis_report.json'')) = Some (OtherException ''PermissionError'')"
proof -
  note t = warnings_always_empty [of example_world None]
  from t example_report_none have a: "json_get example_report ''warnings'' = Some (JList [])"
    by blast
  have r: "generate_report readonly_world (Some ''java_analysis_report.json'') =
     Inl (OtherException ''PermissionError'')"
    by (simp add: generate_report_eq readonly_world_def)
  with warnings_always_empty [of readonly_world "Some ''java_analysis_report.json''"]
  have b: "dump readonly_world (the (Some ''java_analysis_report.json'')) = Some (OtherException ''PermissionError'')"
    by blast
  show ?thesis
    by (intro conjI example_report_none a r b)
qed

end
